theory Spec2Isabelle
  imports Complex_Main "HOL-Library.Sublist" "HOL-Library.Multiset"
begin

section \<open>Errors and log records\<close>

text \<open>
  The exceptions that the modelled part of \<^verbatim>\<open>visual.py\<close> can raise, by their Python
  class. A function that can raise returns \<open>py_error + 'a\<close>, with \<open>Inl\<close> the exception.
\<close>

datatype py_error =
    InvalidDicomError
  | BytesLengthException
  | IsADirectoryError
  | AttributeError
  | TypeError
  | ValueError
  | IndexError

text \<open>
  One constructor for each \<^verbatim>\<open>logging\<close> call of \<^verbatim>\<open>visual.py\<close>, carrying the values that
  its message formats. A function that logs returns the records it emitted, oldest first,
  beside its result.
\<close>

datatype log_record =
    Info_searching
  | Info_t1_found string
  | Warning_invalid_dicom string
  | Warning_no_t1
  | Info_loading string
  | Error_failed py_error

definition logged :: "log_record \<Rightarrow> log_record list \<times> 'a \<Rightarrow> log_record list \<times> 'a" where
  "logged r p = (r # fst p, snd p)"

section \<open>Strings and paths\<close>

text \<open>
  \<^verbatim>\<open>str.lower\<close> on the ASCII letters. A string is a list of bytes (UTF-8); no byte of a
  character outside ASCII is an ASCII byte, so the tests \<^verbatim>\<open>endswith(".dcm")\<close> and
  \<^verbatim>\<open>'t1' in s\<close> on the lowered string depend on the ASCII letters only.
\<close>

definition lower_char :: "char \<Rightarrow> char" where
  "lower_char c =
     (let n = (of_char c :: nat) in if 65 \<le> n \<and> n \<le> 90 then char_of (n + 32) else c)"

definition lower :: "string \<Rightarrow> string" where
  "lower s = map lower_char s"

definition endswith :: "string \<Rightarrow> string \<Rightarrow> bool" where
  "endswith s suf = (length suf \<le> length s \<and> drop (length s - length suf) s = suf)"

text \<open>\<^verbatim>\<open>sub in s\<close> for strings: \<open>sub\<close> occurs in \<open>s\<close> as a contiguous run.\<close>

fun str_in :: "string \<Rightarrow> string \<Rightarrow> bool" where
  "str_in sub [] = (sub = [])"
| "str_in sub (c # cs) = (take (length sub) (c # cs) = sub \<or> str_in sub cs)"

text \<open>\<^verbatim>\<open>os.path.join(a, b)\<close> for a relative \<open>b\<close> (the names of a listing are relative).\<close>

definition path_join :: "string \<Rightarrow> string \<Rightarrow> string" where
  "path_join a b = (if a = [] \<or> last a = CHR ''/'' then a @ b else a @ ''/'' @ b)"

section \<open>DICOM files and directories\<close>

text \<open>
  An element of a data set: \<open>None\<close> when the data set has no such element, otherwise
  the values of the element, which a DICOM file separates by a backslash.
\<close>

type_synonym 'a element = "'a list option"

text \<open>
  The elements of a data set that \<^verbatim>\<open>visual.py\<close> reads. \<open>PixelData\<close> holds the samples of
  the one frame in row-major order, \<open>None\<close> when the data set has no pixel data.
\<close>

record dataset =
  SeriesDescription :: "string element"
  InstanceNumber :: "int element"
  Rows :: "nat element"
  Columns :: "nat element"
  PixelData :: "int list option"
  PixelSpacing :: "rat element"
  SliceThickness :: "rat element"

text \<open>
  What pydicom hands out for an element that is present: the value itself when there is
  one, a \<^verbatim>\<open>MultiValue\<close> sequence when there are several, and \<^verbatim>\<open>None\<close> when there is none,
  except for a text element, whose empty value is the empty string.
\<close>

datatype 'a py_value = PyNone | Single 'a | MultiValue "'a list"

definition element_value :: "'a list \<Rightarrow> 'a py_value" where
  "element_value vs = (case vs of [] \<Rightarrow> PyNone | [v] \<Rightarrow> Single v | _ \<Rightarrow> MultiValue vs)"

definition text_value :: "string list \<Rightarrow> string py_value" where
  "text_value vs = (case vs of [] \<Rightarrow> Single [] | [v] \<Rightarrow> Single v | _ \<Rightarrow> MultiValue vs)"

text \<open>The attribute access \<^verbatim>\<open>ds.Keyword\<close>: AttributeError when the element is absent.\<close>

definition getattr :: "'a element \<Rightarrow> py_error + 'a py_value" where
  "getattr e = (case e of None \<Rightarrow> Inl AttributeError | Some vs \<Rightarrow> Inr (element_value vs))"

text \<open>
  \<^verbatim>\<open>int(v)\<close> for a value of a numeric element, \<^verbatim>\<open>v.lower()\<close> and \<^verbatim>\<open>v[k]\<close>. \<^verbatim>\<open>None\<close> and a
  \<^verbatim>\<open>MultiValue\<close> are no argument for \<^verbatim>\<open>int\<close> (TypeError) and have no method \<^verbatim>\<open>lower\<close>
  (AttributeError); \<^verbatim>\<open>None\<close> and a number cannot be indexed (TypeError).
\<close>

definition py_int :: "'a py_value \<Rightarrow> py_error + 'a" where
  "py_int v = (case v of Single n \<Rightarrow> Inr n | _ \<Rightarrow> Inl TypeError)"

definition py_lower :: "string py_value \<Rightarrow> py_error + string" where
  "py_lower v = (case v of Single s \<Rightarrow> Inr (lower s) | _ \<Rightarrow> Inl AttributeError)"

definition py_index :: "'a py_value \<Rightarrow> nat \<Rightarrow> py_error + 'a" where
  "py_index v k =
     (case v of
        MultiValue vs \<Rightarrow> if k < length vs then Inr (vs ! k) else Inl IndexError
      | _ \<Rightarrow> Inl TypeError)"

text \<open>\<^verbatim>\<open>int(ds.Keyword)\<close>, as lines 37 and 41 read InstanceNumber, Rows and Columns.\<close>

definition attr_int :: "'a element \<Rightarrow> py_error + 'a" where
  "attr_int e = (case getattr e of Inl err \<Rightarrow> Inl err | Inr v \<Rightarrow> py_int v)"

text \<open>
  What a path names: a regular file that holds a data set, a regular file that is not
  DICOM (it lacks the DICOM preamble), a regular file that starts as a DICOM file and
  breaks off inside an element, or a directory with its entries in the order in which
  the system lists them.
\<close>

datatype node =
    DicomFile dataset
  | OtherFile
  | TruncatedFile
  | Directory "(string \<times> node) list"

fun is_dir :: "node \<Rightarrow> bool" where
  "is_dir (Directory _) = True"
| "is_dir _ = False"

text \<open>
  \<^verbatim>\<open>pydicom.dcmread(path, stop_before_pixels=...)\<close> on what \<open>path\<close> names. Reading stops
  before the pixel data when the flag is set, so the element is absent from the result.
  A file without the preamble raises \<^verbatim>\<open>InvalidDicomError\<close>; a file that breaks off raises
  \<^verbatim>\<open>BytesLengthException\<close>, which is not a subclass of it.
\<close>

fun dcmread :: "bool \<Rightarrow> node \<Rightarrow> py_error + dataset" where
  "dcmread stop_before_pixels (DicomFile ds) =
     Inr (if stop_before_pixels then ds\<lparr>PixelData := None\<rparr> else ds)"
| "dcmread stop_before_pixels OtherFile = Inl InvalidDicomError"
| "dcmread stop_before_pixels TruncatedFile = Inl BytesLengthException"
| "dcmread stop_before_pixels (Directory es) = Inl IsADirectoryError"

text \<open>
  \<^verbatim>\<open>os.walk(top)\<close>, top-down: the directory itself first, with its entries that are not
  directories (name and content; \<^verbatim>\<open>visual.py\<close> ignores the list of subdirectory names),
  then the walk of each subdirectory in listing order.
\<close>

fun os_walk :: "string \<Rightarrow> (string \<times> node) list \<Rightarrow> (string \<times> (string \<times> node) list) list"
  and walk_subdirs :: "string \<Rightarrow> (string \<times> node) list \<Rightarrow> (string \<times> (string \<times> node) list) list"
  and walk_node :: "string \<Rightarrow> node \<Rightarrow> (string \<times> (string \<times> node) list) list" where
  "os_walk dirpath es = (dirpath, filter (\<lambda>e. \<not> is_dir (snd e)) es) # walk_subdirs dirpath es"
| "walk_subdirs dirpath [] = []"
| "walk_subdirs dirpath (e # es) = walk_node (path_join dirpath (fst e)) (snd e) @ walk_subdirs dirpath es"
| "walk_node path (Directory es) = os_walk path es"
| "walk_node path (DicomFile ds) = []"
| "walk_node path OtherFile = []"
| "walk_node path TruncatedFile = []"

section \<open>find_t1_series\<close>

text \<open>
  Lines 24 and 25, the statements of the \<^verbatim>\<open>try\<close> block that can raise: the file is read
  and its series description, the empty string when the element is absent, is lowered.
\<close>

definition read_description :: "node \<Rightarrow> py_error + string" where
  "read_description content =
     (case dcmread True content of
        Inl e \<Rightarrow> Inl e
      | Inr dicom_data \<Rightarrow>
          py_lower (case SeriesDescription dicom_data of
                      None \<Rightarrow> Single []
                    | Some vs \<Rightarrow> text_value vs))"

text \<open>
  The inner loop over the files of one walk step. \<open>Inr (Some dirpath)\<close> is the function's
  \<^verbatim>\<open>return root\<close>, \<open>Inr None\<close> the end of the loop, \<open>Inl e\<close> an exception that the
  \<^verbatim>\<open>except pydicom.errors.InvalidDicomError\<close> clause does not catch.
\<close>

fun scan_files :: "string \<Rightarrow> (string \<times> node) list \<Rightarrow> log_record list \<times> (py_error + string option)" where
  "scan_files dirpath [] = ([], Inr None)"
| "scan_files dirpath ((filename, content) # files) =
     (if endswith (lower filename) ''.dcm'' then
        (let filepath = path_join dirpath filename in
         case read_description content of
           Inr series_description \<Rightarrow>
             (if str_in ''t1'' series_description
              then ([Info_t1_found dirpath], Inr (Some dirpath))
              else scan_files dirpath files)
         | Inl e \<Rightarrow>
             (if e = InvalidDicomError
              then logged (Warning_invalid_dicom filepath) (scan_files dirpath files)
              else ([], Inl e)))
      else scan_files dirpath files)"

text \<open>The outer loop over the walk, and the fall-through \<^verbatim>\<open>return None\<close>.\<close>

fun scan_walk :: "(string \<times> (string \<times> node) list) list \<Rightarrow> log_record list \<times> (py_error + string option)" where
  "scan_walk [] = ([Warning_no_t1], Inr None)"
| "scan_walk ((dirpath, files) # steps) =
     (case scan_files dirpath files of
        (l, Inr None) \<Rightarrow> (let (l', r) = scan_walk steps in (l @ l', r))
      | (l, r) \<Rightarrow> (l, r))"

definition find_t1_series :: "string \<Rightarrow> (string \<times> node) list \<Rightarrow> log_record list \<times> (py_error + string option)" where
  "find_t1_series directory listing = logged Info_searching (scan_walk (os_walk directory listing))"

section \<open>Arrays\<close>

text \<open>
  A numpy array of two or three dimensions: its shape, and its elements as nested lists,
  outermost axis first (\<open>cells v ! i ! j ! k\<close> is \<^verbatim>\<open>v[i, j, k]\<close>). The shape is kept
  beside the elements because an array with an empty axis still has one.
\<close>

record 'a array2 =
  shape2 :: "nat \<times> nat"
  rows2 :: "'a list list"

record 'a array3 =
  shape3 :: "nat \<times> nat \<times> nat"
  cells :: "'a list list list"

text \<open>\<^verbatim>\<open>np.zeros(shape, dtype=np.float32)\<close>.\<close>

definition zeros :: "nat \<times> nat \<times> nat \<Rightarrow> rat array3" where
  "zeros shape =
     (case shape of (r, c, n) \<Rightarrow>
        \<lparr>shape3 = shape, cells = replicate r (replicate c (replicate n 0))\<rparr>)"

text \<open>
  numpy's broadcasting of a two-dimensional value to the shape \<open>(r, c)\<close> of the target
  of an assignment: an axis of length one is repeated. Used where the shapes allow it.
\<close>

definition broadcast_to :: "nat \<Rightarrow> nat \<Rightarrow> 'a array2 \<Rightarrow> 'a list list" where
  "broadcast_to r c a =
     map (\<lambda>row. if snd (shape2 a) = c then row else replicate c (hd row))
       (if fst (shape2 a) = r then rows2 a else replicate r (hd (rows2 a)))"

text \<open>
  The assignment \<^verbatim>\<open>volume[:, :, i] = a\<close> for \<open>0 \<le> i\<close>: IndexError when \<open>i\<close> is
  outside the third axis, ValueError when the value cannot be broadcast to the first
  two axes; otherwise the array with plane \<open>i\<close> overwritten.
\<close>

definition set_plane :: "'a array3 \<Rightarrow> nat \<Rightarrow> 'a array2 \<Rightarrow> py_error + 'a array3" where
  "set_plane volume i a =
     (case shape3 volume of (r, c, n) \<Rightarrow>
        if n \<le> i then Inl IndexError
        else if (fst (shape2 a) = r \<or> fst (shape2 a) = 1) \<and> (snd (shape2 a) = c \<or> snd (shape2 a) = 1)
        then Inr (volume\<lparr>cells :=
               map2 (\<lambda>plane row. map2 (\<lambda>cell x. cell[i := x]) plane row)
                 (cells volume) (broadcast_to r c a)\<rparr>)
        else Inl ValueError)"

text \<open>
  \<^verbatim>\<open>ds.pixel_array\<close> of a single-frame, single-sample data set: the first
  \<open>Rows * Columns\<close> samples reshaped to \<open>(Rows, Columns)\<close>; samples beyond them are
  padding, which pydicom drops. pydicom raises when the pixel data are absent, when
  \<open>Rows\<close> or \<open>Columns\<close> is absent or not one number, when one of them is 0
  (ValueError) and when there are fewer samples than \<open>Rows * Columns\<close> (ValueError).
\<close>

definition pixel_array :: "dataset \<Rightarrow> py_error + int array2" where
  "pixel_array ds =
     (case PixelData ds of
        None \<Rightarrow> Inl AttributeError
      | Some samples \<Rightarrow>
          (case attr_int (Rows ds) of
             Inl e \<Rightarrow> Inl e
           | Inr r \<Rightarrow>
               (case attr_int (Columns ds) of
                  Inl e \<Rightarrow> Inl e
                | Inr c \<Rightarrow>
                    if r = 0 \<or> c = 0 \<or> length samples < r * c then Inl ValueError
                    else Inr \<lparr>shape2 = (r, c),
                              rows2 = map (\<lambda>i. take c (drop (i * c) samples)) [0..<r]\<rparr>)))"

text \<open>
  \<^verbatim>\<open>a.astype(np.float32)\<close> of an integer array. A float32 value is modelled by the
  rational number it denotes, and \<open>rnd\<close>, a parameter of the model, is the rounding
  of an exact result to float32 that numpy applies after each operation; \<open>float32\<close>
  below is that rounding.
\<close>

definition astype :: "(rat \<Rightarrow> rat) \<Rightarrow> int array2 \<Rightarrow> rat array2" where
  "astype rnd a = \<lparr>shape2 = shape2 a, rows2 = map (map (\<lambda>x. rnd (of_int x))) (rows2 a)\<rparr>"

text \<open>
  The rounding of numpy itself: a float32 number is \<open>m * 2 powi (e - 23)\<close> with a
  significand \<open>m\<close> of 24 bits, and an exact result is rounded to the nearest such number, a tie to
  the even significand. \<open>exponent x\<close> is the \<open>e\<close> with
  \<open>2 powi e \<le> x < 2 powi (e + 1)\<close>, found by halving or doubling \<open>x\<close>. The exponent is not bounded here: the samples of a pixel array are
  integers of at most 32 bits, so that the values the program computes, and their
  differences and quotients, stay far from the overflow and the underflow of float32.
\<close>

definition round_half_even :: "rat \<Rightarrow> int" where
  "round_half_even z =
     (let f = \<lfloor>z\<rfloor>; r = z - of_int f
      in if r < 1 / 2 then f else if 1 / 2 < r then f + 1 else if even f then f else f + 1)"

function exponent_up :: "rat \<Rightarrow> int" where
  "exponent_up x = (if 2 \<le> x then exponent_up (x / 2) + 1 else 0)"
  by pat_completeness auto
termination
proof (relation "measure (\<lambda>x. nat \<lfloor>x\<rfloor>)")
  show "wf (measure (\<lambda>x::rat. nat \<lfloor>x\<rfloor>))" by simp
next
  fix x :: rat
  assume x: "2 \<le> x"
  have "x / 2 < of_int \<lfloor>x\<rfloor>"
  proof -
    have "x < of_int \<lfloor>x\<rfloor> + 1" by linarith
    moreover have "(2::rat) \<le> of_int \<lfloor>x\<rfloor>" using x by (simp add: le_floor_iff)
    ultimately show ?thesis by linarith
  qed
  hence "\<lfloor>x / 2\<rfloor> < \<lfloor>x\<rfloor>" by (simp add: floor_less_iff)
  moreover have "0 < \<lfloor>x\<rfloor>" using x by (simp add: less_floor_iff)
  ultimately show "(x / 2, x) \<in> measure (\<lambda>x. nat \<lfloor>x\<rfloor>)" by simp
qed

function exponent_down :: "rat \<Rightarrow> int" where
  "exponent_down x = (if 0 < x \<and> x < 1 then exponent_down (2 * x) - 1 else 0)"
  by pat_completeness auto
termination
proof (relation "measure (\<lambda>x. nat \<lceil>1 / x\<rceil>)")
  show "wf (measure (\<lambda>x::rat. nat \<lceil>1 / x\<rceil>))" by simp
next
  fix x :: rat
  assume x: "0 < x \<and> x < 1"
  define y where "y = 1 / x"
  have y: "1 < y" using x by (simp add: y_def)
  have c: "2 \<le> \<lceil>y\<rceil>" using y by (simp add: le_ceiling_iff)
  define z :: rat where "z = of_int \<lceil>y\<rceil>"
  from c have "of_int 2 \<le> z" unfolding z_def by (simp only: of_int_le_iff)
  hence "2 \<le> z" by simp
  moreover have "y \<le> z" unfolding z_def by simp
  ultimately have "y / 2 \<le> z - 1" by linarith
  hence "y / 2 \<le> of_int (\<lceil>y\<rceil> - 1)" by (simp add: z_def)
  hence "\<lceil>y / 2\<rceil> \<le> \<lceil>y\<rceil> - 1" by (simp only: ceiling_le_iff)
  hence "\<lceil>y / 2\<rceil> < \<lceil>y\<rceil>" by simp
  moreover have "y / 2 = 1 / (2 * x)" by (simp add: y_def)
  ultimately have m: "\<lceil>1 / (2 * x)\<rceil> < \<lceil>1 / x\<rceil>" by (simp only: y_def)
  from x m show "(2 * x, x) \<in> measure (\<lambda>x. nat \<lceil>1 / x\<rceil>)" by simp
qed

declare exponent_up.simps [simp del] exponent_down.simps [simp del]

definition exponent :: "rat \<Rightarrow> int" where
  "exponent x = (if 1 \<le> x then exponent_up x else exponent_down x)"

definition significand :: "rat \<Rightarrow> int" where
  "significand x = round_half_even (x / 2 powi (exponent x - 23))"

definition float32 :: "rat \<Rightarrow> rat" where
  "float32 x =
     (if x = 0 then 0 else sgn x * of_int (significand \<bar>x\<bar>) * 2 powi (exponent \<bar>x\<bar> - 23))"

text \<open>
  The value of a float32 division: numpy does not raise on a zero divisor (it warns), the
  quotient is NaN for \<open>0 / 0\<close> and an infinity otherwise.
\<close>

datatype fvalue = Finite rat | PosInf | NegInf | NaN

definition fdiv :: "(rat \<Rightarrow> rat) \<Rightarrow> rat \<Rightarrow> rat \<Rightarrow> fvalue" where
  "fdiv rnd a b =
     (if b = 0 then (if a = 0 then NaN else if 0 < a then PosInf else NegInf)
      else Finite (rnd (a / b)))"

text \<open>
  \<^verbatim>\<open>a.min()\<close> and \<^verbatim>\<open>a.max()\<close> over all elements; numpy raises ValueError on an array
  with no element.
\<close>

definition elements :: "'a array3 \<Rightarrow> 'a list" where
  "elements a = concat (concat (cells a))"

definition amin :: "rat array3 \<Rightarrow> py_error + rat" where
  "amin a = (case elements a of [] \<Rightarrow> Inl ValueError | x # xs \<Rightarrow> Inr (fold min xs x))"

definition amax :: "rat array3 \<Rightarrow> py_error + rat" where
  "amax a = (case elements a of [] \<Rightarrow> Inl ValueError | x # xs \<Rightarrow> Inr (fold max xs x))"

definition map_array3 :: "('a \<Rightarrow> 'b) \<Rightarrow> 'a array3 \<Rightarrow> 'b array3" where
  "map_array3 f a = \<lparr>shape3 = shape3 a, cells = map (map (map f)) (cells a)\<rparr>"

section \<open>load_dicom_series\<close>

text \<open>Python evaluates \<open>f\<close> on the elements in order and stops at the first exception.\<close>

fun try_map :: "('a \<Rightarrow> py_error + 'b) \<Rightarrow> 'a list \<Rightarrow> py_error + 'b list" where
  "try_map f [] = Inr []"
| "try_map f (x # xs) =
     (case f x of
        Inl e \<Rightarrow> Inl e
      | Inr y \<Rightarrow> (case try_map f xs of Inl e \<Rightarrow> Inl e | Inr ys \<Rightarrow> Inr (y # ys)))"

text \<open>
  The listing filtered by name (line 36). An entry is kept with its name: a name of a
  listing denotes the entry it came from, so reading \<^verbatim>\<open>os.path.join(directory, x)\<close>
  reads that entry.
\<close>

definition dicom_entries :: "(string \<times> node) list \<Rightarrow> (string \<times> node) list" where
  "dicom_entries listing = filter (\<lambda>f. endswith (lower (fst f)) ''.dcm'') listing"

text \<open>The sort key of line 37: \<^verbatim>\<open>int(dcmread(..., stop_before_pixels=True).InstanceNumber)\<close>.\<close>

definition instance_key :: "string \<times> node \<Rightarrow> py_error + int" where
  "instance_key x =
     (case dcmread True (snd x) of
        Inl e \<Rightarrow> Inl e
      | Inr ds \<Rightarrow> attr_int (InstanceNumber ds))"

text \<open>
  \<^verbatim>\<open>list.sort(key=...)\<close>: the keys of all elements are computed first, in list order, and
  the sort is stable and ascending, as \<^const>\<open>sort_key\<close> is.
\<close>

definition sort_by_instance :: "(string \<times> node) list \<Rightarrow> py_error + (string \<times> node) list" where
  "sort_by_instance files =
     (case try_map instance_key files of
        Inl e \<Rightarrow> Inl e
      | Inr keys \<Rightarrow> Inr (map snd (sort_key fst (zip keys files))))"

text \<open>
  The loop of lines 44 to 46 over \<^verbatim>\<open>enumerate(dicom_files)\<close>. Its state is the volume and
  the variable \<^verbatim>\<open>ds\<close>, which the code reads again after the loop.
\<close>

fun stack_loop :: "(rat \<Rightarrow> rat) \<Rightarrow> (nat \<times> string \<times> node) list \<Rightarrow> rat array3 \<times> dataset
    \<Rightarrow> py_error + rat array3 \<times> dataset" where
  "stack_loop rnd [] state = Inr state"
| "stack_loop rnd ((i, file) # rest) (volume, ds) =
     (case dcmread False (snd file) of
        Inl e \<Rightarrow> Inl e
      | Inr ds' \<Rightarrow>
          (case pixel_array ds' of
             Inl e \<Rightarrow> Inl e
           | Inr pixels \<Rightarrow>
               (case set_plane volume i (astype rnd pixels) of
                  Inl e \<Rightarrow> Inl e
                | Inr volume' \<Rightarrow> stack_loop rnd rest (volume', ds'))))"

text \<open>
  Lines 36 to 46: the files listed and sorted, the first one read for the shape, the
  volume allocated and filled. \<^verbatim>\<open>dicom_files[0]\<close> raises IndexError on an empty list.
\<close>

definition stack_series :: "(rat \<Rightarrow> rat) \<Rightarrow> (string \<times> node) list \<Rightarrow> py_error + rat array3 \<times> dataset" where
  "stack_series rnd listing =
     (case sort_by_instance (dicom_entries listing) of
        Inl e \<Rightarrow> Inl e
      | Inr dicom_files \<Rightarrow>
          (case dicom_files of
             [] \<Rightarrow> Inl IndexError
           | first # _ \<Rightarrow>
               (case dcmread False (snd first) of
                  Inl e \<Rightarrow> Inl e
                | Inr ds \<Rightarrow>
                    (case attr_int (Rows ds) of
                       Inl e \<Rightarrow> Inl e
                     | Inr r \<Rightarrow>
                         (case attr_int (Columns ds) of
                            Inl e \<Rightarrow> Inl e
                          | Inr c \<Rightarrow>
                              stack_loop rnd (enumerate 0 dicom_files)
                                (zeros (r, c, length dicom_files), ds))))))"

text \<open>
  Line 49: \<^verbatim>\<open>(volume - volume.min()) / (volume.max() - volume.min())\<close> in float32. The
  two subtractions and the division are rounded; \<open>normalize_value\<close> is what becomes of
  one element.
\<close>

definition normalize_value :: "(rat \<Rightarrow> rat) \<Rightarrow> rat \<Rightarrow> rat \<Rightarrow> rat \<Rightarrow> fvalue" where
  "normalize_value rnd lo hi x = fdiv rnd (rnd (x - lo)) (rnd (hi - lo))"

definition normalize_volume :: "(rat \<Rightarrow> rat) \<Rightarrow> rat array3 \<Rightarrow> py_error + fvalue array3" where
  "normalize_volume rnd volume =
     (case amin volume of
        Inl e \<Rightarrow> Inl e
      | Inr lo \<Rightarrow>
          (case amax volume of
             Inl e \<Rightarrow> Inl e
           | Inr hi \<Rightarrow>
               Inr (map_array3 (normalize_value rnd lo hi) volume)))"

text \<open>
  Lines 51 to 54. An absent element raises AttributeError; a \<^verbatim>\<open>PixelSpacing\<close> of fewer
  than two values is not a sequence in pydicom, and indexing it raises TypeError. The
  value of \<^verbatim>\<open>SliceThickness\<close> is returned as pydicom hands it out.
\<close>

definition spacing_of :: "dataset \<Rightarrow> py_error + rat \<times> rat \<times> rat py_value" where
  "spacing_of ds =
     (case getattr (PixelSpacing ds) of
        Inl e \<Rightarrow> Inl e
      | Inr pixel_spacing \<Rightarrow>
          (case getattr (SliceThickness ds) of
             Inl e \<Rightarrow> Inl e
           | Inr slice_thickness \<Rightarrow>
               (case py_index pixel_spacing 0 of
                  Inl e \<Rightarrow> Inl e
                | Inr a \<Rightarrow>
                    (case py_index pixel_spacing 1 of
                       Inl e \<Rightarrow> Inl e
                     | Inr b \<Rightarrow> Inr (a, b, slice_thickness)))))"

definition load_dicom_series :: "(rat \<Rightarrow> rat) \<Rightarrow> string \<Rightarrow> (string \<times> node) list
    \<Rightarrow> log_record list \<times> (py_error + fvalue array3 \<times> rat \<times> rat \<times> rat py_value)" where
  "load_dicom_series rnd directory listing =
     logged (Info_loading directory)
       ([], case stack_series rnd listing of
              Inl e \<Rightarrow> Inl e
            | Inr (stacked, ds) \<Rightarrow>
                (case normalize_volume rnd stacked of
                   Inl e \<Rightarrow> Inl e
                 | Inr volume \<Rightarrow>
                     (case spacing_of ds of
                        Inl e \<Rightarrow> Inl e
                      | Inr spacing \<Rightarrow> Inr (volume, spacing))))"

section \<open>MRIVisualization\<close>

text \<open>
  An instance of the class: its two parameters, the bounds of \<^verbatim>\<open>slice_index\<close> (an
  attribute of the instance's parameter object), and the attributes set in \<^verbatim>\<open>__init__\<close>.
\<close>

record MRIVisualization =
  slice_index :: int
  view_axis :: string
  slice_index_bounds :: "int \<times> int"
  volume :: "fvalue array3"
  spacing :: "rat \<times> rat \<times> rat py_value"

text \<open>
  \<^verbatim>\<open>MRIVisualization(dicom_directory)\<close>: the parameters take their declared defaults, then
  lines 62 and 63 run.
\<close>

definition MRIVisualization_init :: "(rat \<Rightarrow> rat) \<Rightarrow> string \<Rightarrow> (string \<times> node) list
    \<Rightarrow> log_record list \<times> (py_error + MRIVisualization)" where
  "MRIVisualization_init rnd dicom_directory listing =
     (case load_dicom_series rnd dicom_directory listing of
        (l, Inl e) \<Rightarrow> (l, Inl e)
      | (l, Inr (vol, sp)) \<Rightarrow>
          (l, Inr \<lparr>slice_index = 0, view_axis = ''z'',
                   slice_index_bounds = (0, int (snd (snd (shape3 vol))) - 1),
                   volume = vol, spacing = sp\<rparr>))"

text \<open>
  Setting a parameter, as the widgets of the panel do. \<^verbatim>\<open>param.Integer\<close> refuses a value
  outside its (inclusive) bounds and \<^verbatim>\<open>param.ObjectSelector\<close> one that is not among its
  objects, both with ValueError; neither touches another attribute.
\<close>

definition set_slice_index :: "int \<Rightarrow> MRIVisualization \<Rightarrow> py_error + MRIVisualization" where
  "set_slice_index i self =
     (if fst (slice_index_bounds self) \<le> i \<and> i \<le> snd (slice_index_bounds self)
      then Inr (self\<lparr>slice_index := i\<rparr>) else Inl ValueError)"

definition set_view_axis :: "string \<Rightarrow> MRIVisualization \<Rightarrow> py_error + MRIVisualization" where
  "set_view_axis a self =
     (if a \<in> set [''x'', ''y'', ''z''] then Inr (self\<lparr>view_axis := a\<rparr>) else Inl ValueError)"

text \<open>
  numpy's integer index \<open>i\<close> on an axis of length \<open>n\<close>: a negative index counts from
  the end, and an index outside \<open>-n \<le> i < n\<close> raises IndexError.
\<close>

definition axis_index :: "nat \<Rightarrow> int \<Rightarrow> py_error + nat" where
  "axis_index n i =
     (if 0 \<le> i \<and> i < int n then Inr (nat i)
      else if - int n \<le> i \<and> i < 0 then Inr (nat (i + int n))
      else Inl IndexError)"

text \<open>\<^verbatim>\<open>v[i, :, :]\<close>, \<^verbatim>\<open>v[:, i, :]\<close> and \<^verbatim>\<open>v[:, :, i]\<close>.\<close>

definition take_x :: "'a array3 \<Rightarrow> int \<Rightarrow> py_error + 'a array2" where
  "take_x v i =
     (case shape3 v of (r, c, n) \<Rightarrow>
        case axis_index r i of
          Inl e \<Rightarrow> Inl e
        | Inr j \<Rightarrow> Inr \<lparr>shape2 = (c, n), rows2 = cells v ! j\<rparr>)"

definition take_y :: "'a array3 \<Rightarrow> int \<Rightarrow> py_error + 'a array2" where
  "take_y v i =
     (case shape3 v of (r, c, n) \<Rightarrow>
        case axis_index c i of
          Inl e \<Rightarrow> Inl e
        | Inr j \<Rightarrow> Inr \<lparr>shape2 = (r, n), rows2 = map (\<lambda>plane. plane ! j) (cells v)\<rparr>)"

definition take_z :: "'a array3 \<Rightarrow> int \<Rightarrow> py_error + 'a array2" where
  "take_z v i =
     (case shape3 v of (r, c, n) \<Rightarrow>
        case axis_index n i of
          Inl e \<Rightarrow> Inl e
        | Inr j \<Rightarrow> Inr \<lparr>shape2 = (r, c), rows2 = map (map (\<lambda>cell. cell ! j)) (cells v)\<rparr>)"

text \<open>Lines 69 to 74 of \<^verbatim>\<open>view\<close>: the slice that is drawn.\<close>

definition slice_data :: "MRIVisualization \<Rightarrow> py_error + fvalue array2" where
  "slice_data self =
     (if view_axis self = ''x'' then take_x (volume self) (slice_index self)
      else if view_axis self = ''y'' then take_y (volume self) (slice_index self)
      else take_z (volume self) (slice_index self))"

section \<open>pyplot\<close>

text \<open>
  What \<^verbatim>\<open>view\<close> makes of a matplotlib figure with one pair of axes: its size in inches,
  the images drawn on the axes with their colour maps, whether the axes are shown, and
  whether the tight layout was applied.
\<close>

record figure =
  figsize :: "rat \<times> rat"
  images :: "(fvalue array2 \<times> string) list"
  axis_on :: bool
  tight :: bool

text \<open>
  The state of \<^verbatim>\<open>matplotlib.pyplot\<close>, which is global to the process: the open figures
  by number, in the order in which they became current, the last one being the current
  figure. The settings of matplotlib (\<^verbatim>\<open>rcParams\<close>) are no part of it: no statement of
  \<^verbatim>\<open>visual.py\<close> assigns them.
\<close>

type_synonym pyplot = "(nat \<times> figure) list"

definition blank_figure :: "rat \<times> rat \<Rightarrow> figure" where
  "blank_figure inches = \<lparr>figsize = inches, images = [], axis_on = True, tight = False\<rparr>"

text \<open>The number that pyplot gives to a new figure: one more than the greatest in use.\<close>

definition next_num :: "pyplot \<Rightarrow> nat" where
  "next_num plt = fold max (map fst plt) 0 + 1"

text \<open>\<^verbatim>\<open>plt.subplots(figsize=inches)\<close>: a new figure, which becomes the current one.\<close>

definition subplots :: "rat \<times> rat \<Rightarrow> pyplot \<Rightarrow> nat \<times> pyplot" where
  "subplots inches plt = (next_num plt, plt @ [(next_num plt, blank_figure inches)])"

text \<open>A method of a figure or of its axes changes the figure of that number.\<close>

definition update_figure :: "nat \<Rightarrow> (figure \<Rightarrow> figure) \<Rightarrow> pyplot \<Rightarrow> pyplot" where
  "update_figure num f plt = map (\<lambda>x. if fst x = num then (fst x, f (snd x)) else x) plt"

definition imshow :: "nat \<Rightarrow> fvalue array2 \<Rightarrow> string \<Rightarrow> pyplot \<Rightarrow> pyplot" where
  "imshow num data cmap plt = update_figure num (\<lambda>f. f\<lparr>images := images f @ [(data, cmap)]\<rparr>) plt"

definition axis_off :: "nat \<Rightarrow> pyplot \<Rightarrow> pyplot" where
  "axis_off num plt = update_figure num (\<lambda>f. f\<lparr>axis_on := False\<rparr>) plt"

text \<open>
  \<^verbatim>\<open>plt.gcf()\<close>, through which the functions of the module \<^verbatim>\<open>plt\<close> find their figure:
  the current figure, a new one of the default size when no figure is open.
\<close>

definition gcf :: "pyplot \<Rightarrow> nat \<times> pyplot" where
  "gcf plt = (if plt = [] then subplots (32 / 5, 24 / 5) plt else (fst (last plt), plt))"

definition tight_layout :: "pyplot \<Rightarrow> pyplot" where
  "tight_layout plt = (case gcf plt of (num, plt') \<Rightarrow> update_figure num (\<lambda>f. f\<lparr>tight := True\<rparr>) plt')"

text \<open>
  \<^verbatim>\<open>plt.savefig(buf, format='png')\<close>: the current figure is written to the buffer. The
  bytes of the PNG image are modelled by the figure that they show.
\<close>

definition savefig :: "pyplot \<Rightarrow> figure \<times> pyplot" where
  "savefig plt = (case gcf plt of (num, plt') \<Rightarrow> (snd (last plt'), plt'))"

text \<open>\<^verbatim>\<open>plt.close(fig)\<close>: the figure is open no more.\<close>

definition close :: "nat \<Rightarrow> pyplot \<Rightarrow> pyplot" where
  "close num plt = filter (\<lambda>x. fst x \<noteq> num) plt"

section \<open>view and panel\<close>

text \<open>\<^verbatim>\<open>pn.pane.PNG(buf, width=..., height=...)\<close>.\<close>

datatype pane = PNG figure nat nat

text \<open>
  \<^verbatim>\<open>view\<close>, lines 67 to 85, on the instance and the state of pyplot; it returns what the
  method returns or raises, and the state of pyplot that it leaves. The exception of
  lines 69 to 74 leaves the function before line 83, with the new figure still open.
\<close>

definition view :: "MRIVisualization \<Rightarrow> pyplot \<Rightarrow> (py_error + pane) \<times> pyplot" where
  "view self plt =
     (case subplots (8, 8) plt of
        (fig, plt1) \<Rightarrow>
          (case slice_data self of
             Inl e \<Rightarrow> (Inl e, plt1)
           | Inr data \<Rightarrow>
               (let plt2 = imshow fig data ''gray'' plt1;
                    plt3 = axis_off fig plt2;
                    plt4 = tight_layout plt3
                in case savefig plt4 of
                     (buf, plt5) \<Rightarrow> (Inr (PNG buf 400 400), close fig plt5))))"

text \<open>
  Line 65, \<^verbatim>\<open>@param.depends('slice_index', 'view_axis')\<close>: the decorator records on the
  method the names of the parameters that it depends on.
\<close>

definition view_depends :: "string list" where
  "view_depends = [''slice_index'', ''view_axis'']"

text \<open>
  The layout that \<^verbatim>\<open>panel\<close> returns: a heading, and a row of the widgets of the two
  parameters (in a column 200 wide) and the bound method \<^verbatim>\<open>self.view\<close>, which the layout
  holds with its recorded dependencies. The objects of the layout refer to the instance;
  they hold no copy of it.
\<close>

datatype widget = IntSlider | RadioBoxGroup

datatype layout =
    Markdown string
  | Param "(string \<times> widget) list"
  | Method "string list"
  | Row "layout list"
  | Column "nat option" "layout list"

definition panel :: "MRIVisualization \<Rightarrow> layout" where
  "panel self =
     Column None
       [Markdown ''# MRI Visualization'',
        Row [Column (Some 200) [Param [(''slice_index'', IntSlider), (''view_axis'', RadioBoxGroup)]],
             Method view_depends]]"

section \<open>create_mri_visualization\<close>

definition create_mri_visualization :: "(rat \<Rightarrow> rat) \<Rightarrow> string \<Rightarrow> (string \<times> node) list
    \<Rightarrow> log_record list \<times> (py_error + layout)" where
  "create_mri_visualization rnd dicom_directory listing =
     (case MRIVisualization_init rnd dicom_directory listing of
        (l, Inr mri_vis) \<Rightarrow> (l, Inr (panel mri_vis))
      | (l, Inl e) \<Rightarrow> (l @ [Error_failed e], Inl e))"

section \<open>The panel at run time\<close>

text \<open>
  What a widget of the panel does: it sets one parameter. A value that the parameter
  refuses leaves the instance as it was.
\<close>

datatype ui_event = Set_slice_index int | Set_view_axis string

definition handle_event :: "MRIVisualization \<Rightarrow> ui_event \<Rightarrow> MRIVisualization" where
  "handle_event self ev =
     (case (case ev of Set_slice_index i \<Rightarrow> set_slice_index i self
                     | Set_view_axis a \<Rightarrow> set_view_axis a self) of
        Inl e \<Rightarrow> self
      | Inr self' \<Rightarrow> self')"

text \<open>The parameter that an event sets, and whether a parameter differs between two states.\<close>

fun event_parameter :: "ui_event \<Rightarrow> string" where
  "event_parameter (Set_slice_index i) = ''slice_index''"
| "event_parameter (Set_view_axis a) = ''view_axis''"

definition changed :: "MRIVisualization \<Rightarrow> MRIVisualization \<Rightarrow> string \<Rightarrow> bool" where
  "changed self self' name =
     (if name = ''slice_index'' then slice_index self' \<noteq> slice_index self
      else if name = ''view_axis'' then view_axis self' \<noteq> view_axis self
      else False)"

text \<open>
  The parameters for which a layout holds a widget, and the parameters on which the
  methods that it holds depend.
\<close>

fun widgets :: "layout \<Rightarrow> string list" where
  "widgets (Markdown body) = []"
| "widgets (Param ws) = map fst ws"
| "widgets (Method deps) = []"
| "widgets (Row items) = concat (map widgets items)"
| "widgets (Column width items) = concat (map widgets items)"

fun watched :: "layout \<Rightarrow> string list" where
  "watched (Markdown body) = []"
| "watched (Param ws) = []"
| "watched (Method deps) = deps"
| "watched (Row items) = concat (map watched items)"
| "watched (Column width items) = concat (map watched items)"

fun method_count :: "layout \<Rightarrow> nat" where
  "method_count (Markdown body) = 0"
| "method_count (Param ws) = 0"
| "method_count (Method deps) = 1"
| "method_count (Row items) = sum_list (map method_count items)"
| "method_count (Column width items) = sum_list (map method_count items)"

text \<open>
  A served panel: the instance, the state of pyplot, and the outcome of the latest call
  of \<^verbatim>\<open>view\<close> that the panel made, which is what its pane shows.
\<close>

record session =
  mri_vis :: MRIVisualization
  figures :: pyplot
  shown :: "(py_error + pane) option"

text \<open>The panel calls the method it holds, and keeps what the method returns.\<close>

definition redraw :: "MRIVisualization \<Rightarrow> pyplot \<Rightarrow> session" where
  "redraw self plt =
     (case view self plt of (outcome, plt') \<Rightarrow>
        \<lparr>mri_vis = self, figures = plt', shown = Some outcome\<rparr>)"

text \<open>Showing a layout: a method that it holds is called once.\<close>

definition show_panel :: "layout \<Rightarrow> MRIVisualization \<Rightarrow> pyplot \<Rightarrow> session" where
  "show_panel page self plt =
     (if 0 < method_count page then redraw self plt
      else \<lparr>mri_vis = self, figures = plt, shown = None\<rparr>)"

text \<open>
  One event of the user. Only a parameter that has a widget in the layout can be set.
  Panel then calls the method again when the value of a parameter among its recorded
  dependencies has changed, and not otherwise.
\<close>

definition panel_step :: "layout \<Rightarrow> session \<Rightarrow> ui_event \<Rightarrow> session" where
  "panel_step page s ev =
     (if event_parameter ev \<in> set (widgets page) then
        (let self' = handle_event (mri_vis s) ev in
         if \<exists>name \<in> set (watched page). changed (mri_vis s) self' name
         then redraw self' (figures s)
         else s\<lparr>mri_vis := self'\<rparr>)
      else s)"

section \<open>Notions used to state the properties\<close>

subsection \<open>Elements\<close>

text \<open>The value of an element that has exactly one.\<close>

definition the_one :: "'a element \<Rightarrow> 'a option" where
  "the_one e = (case e of Some [v] \<Rightarrow> Some v | _ \<Rightarrow> None)"

subsection \<open>The T1 search\<close>

text \<open>
  The series description that the search reads in a data set: the one value of the
  element, the empty string when the element is absent or has no value.
\<close>

definition description_of :: "dataset \<Rightarrow> string" where
  "description_of ds = (case the_one (SeriesDescription ds) of Some d \<Rightarrow> d | None \<Rightarrow> [])"

text \<open>
  A file that identifies a T1 series: its name ends in \<^verbatim>\<open>.dcm\<close> in any letter case, it
  parses as DICOM, and its series description is one value that contains \<^verbatim>\<open>t1\<close> in any
  letter case.
\<close>

fun has_t1_description :: "node \<Rightarrow> bool" where
  "has_t1_description (DicomFile ds) = sublist ''t1'' (lower (description_of ds))"
| "has_t1_description n = False"

definition is_dcm :: "string \<times> node \<Rightarrow> bool" where
  "is_dcm f = suffix ''.dcm'' (lower (fst f))"

definition is_t1_file :: "string \<times> node \<Rightarrow> bool" where
  "is_t1_file f = (is_dcm f \<and> has_t1_description (snd f))"



text \<open>All files under a directory in the order of the walk, each with its walk root.\<close>

definition flat_steps :: "(string \<times> (string \<times> node) list) list \<Rightarrow> (string \<times> string \<times> node) list" where
  "flat_steps steps = concat (map (\<lambda>step. map (Pair (fst step)) (snd step)) steps)"

definition walk_files :: "string \<Rightarrow> (string \<times> node) list \<Rightarrow> (string \<times> string \<times> node) list" where
  "walk_files directory listing = flat_steps (os_walk directory listing)"

definition first_t1 :: "(string \<times> string \<times> node) list \<Rightarrow> (string \<times> string \<times> node) option" where
  "first_t1 fs = find (\<lambda>x. is_t1_file (snd x)) fs"






subsection \<open>Series of slice images\<close>

text \<open>The data sets of the \<^verbatim>\<open>.dcm\<close> entries that are DICOM files, in listing order.\<close>

fun datasets_of :: "node list \<Rightarrow> dataset list" where
  "datasets_of [] = []"
| "datasets_of (DicomFile ds # ns) = ds # datasets_of ns"
| "datasets_of (n # ns) = datasets_of ns"

definition series_datasets :: "(string \<times> node) list \<Rightarrow> dataset list" where
  "series_datasets listing = datasets_of (map snd (dicom_entries listing))"

text \<open>The InstanceNumber of a data set whose element has one value (0 stands in otherwise).\<close>

definition instance_number :: "dataset \<Rightarrow> int" where
  "instance_number ds = (case the_one (InstanceNumber ds) of Some n \<Rightarrow> n | None \<Rightarrow> 0)"

fun node_instance :: "node \<Rightarrow> int" where
  "node_instance (DicomFile ds) = instance_number ds"
| "node_instance n = 0"

text \<open>
  An entry that line 37 can give a sort key: a DICOM file whose InstanceNumber has one
  value. For any other entry, the exception that computing its key raises.
\<close>

fun sortable :: "node \<Rightarrow> bool" where
  "sortable (DicomFile ds) = (the_one (InstanceNumber ds) \<noteq> None)"
| "sortable n = False"

fun key_error :: "node \<Rightarrow> py_error" where
  "key_error (DicomFile ds) = (case InstanceNumber ds of None \<Rightarrow> AttributeError | _ \<Rightarrow> TypeError)"
| "key_error OtherFile = InvalidDicomError"
| "key_error TruncatedFile = BytesLengthException"
| "key_error (Directory es) = IsADirectoryError"

text \<open>The same data sets in ascending order of InstanceNumber, equal numbers in listing order.\<close>

definition series_slices :: "(string \<times> node) list \<Rightarrow> dataset list" where
  "series_slices listing = sort_key instance_number (series_datasets listing)"

text \<open>
  A data set that can be sorted and stacked: it has one InstanceNumber, one number of
  rows and one of columns, neither 0, and pixel data of at least \<open>Rows * Columns\<close>
  samples.
\<close>

definition pixel_slice :: "dataset \<Rightarrow> bool" where
  "pixel_slice ds =
     (the_one (InstanceNumber ds) \<noteq> None \<and>
      (case (the_one (Rows ds), the_one (Columns ds), PixelData ds) of
         (Some r, Some c, Some samples) \<Rightarrow> 0 < r \<and> 0 < c \<and> r * c \<le> length samples
       | _ \<Rightarrow> False))"

text \<open>
  A slice image with the metadata that the loader reads: a stackable data set with a
  PixelSpacing of two values or more and a SliceThickness.
\<close>

definition slice_image :: "dataset \<Rightarrow> bool" where
  "slice_image ds =
     (pixel_slice ds \<and> SliceThickness ds \<noteq> None \<and>
      (case PixelSpacing ds of None \<Rightarrow> False | Some ps \<Rightarrow> 2 \<le> length ps))"

text \<open>
  A directory whose \<^verbatim>\<open>.dcm\<close> entries, at least one, are all DICOM files that can be
  stacked and have the same numbers of rows and columns.
\<close>

definition slice_series :: "(string \<times> node) list \<Rightarrow> bool" where
  "slice_series listing =
     (dicom_entries listing \<noteq> [] \<and>
      map snd (dicom_entries listing) = map DicomFile (series_datasets listing) \<and>
      (\<forall>ds \<in> set (series_datasets listing).
         pixel_slice ds \<and>
         Rows ds = Rows (hd (series_datasets listing)) \<and>
         Columns ds = Columns (hd (series_datasets listing))))"

text \<open>A directory of slice images of one shape.\<close>

definition dicom_series :: "(string \<times> node) list \<Rightarrow> bool" where
  "dicom_series listing =
     (slice_series listing \<and> (\<forall>ds \<in> set (series_datasets listing). slice_image ds))"

subsection \<open>Arrays\<close>

text \<open>The elements of an array fill its shape.\<close>

definition well_shaped2 :: "'a array2 \<Rightarrow> bool" where
  "well_shaped2 a =
     (length (rows2 a) = fst (shape2 a) \<and> (\<forall>row \<in> set (rows2 a). length row = snd (shape2 a)))"

definition well_shaped3 :: "'a array3 \<Rightarrow> bool" where
  "well_shaped3 v =
     (case shape3 v of (r, c, n) \<Rightarrow>
        length (cells v) = r \<and>
        (\<forall>plane \<in> set (cells v). length plane = c \<and> (\<forall>cell \<in> set plane. length cell = n)))"


text \<open>
  What the properties of the normalization need of the rounding to float32: it is
  monotone, it leaves 0 and 1 as they are, and the difference of two distinct float32
  values does not round to zero. \<open>float32\<close> has these properties, and so has exact
  arithmetic.
\<close>

definition rounding :: "(rat \<Rightarrow> rat) \<Rightarrow> bool" where
  "rounding rnd =
     (rnd 0 = 0 \<and> rnd 1 = 1 \<and> (\<forall>x y. x \<le> y \<longrightarrow> rnd x \<le> rnd y) \<and>
      (\<forall>x y. rnd x < rnd y \<longrightarrow> 0 < rnd (rnd y - rnd x)))"

section \<open>Example directories\<close>

definition example_slice :: "string \<Rightarrow> int \<Rightarrow> nat \<Rightarrow> nat \<Rightarrow> int list \<Rightarrow> rat \<Rightarrow> dataset" where
  "example_slice description number r c samples thickness =
     \<lparr>SeriesDescription = Some [description], InstanceNumber = Some [number], Rows = Some [r],
      Columns = Some [c], PixelData = Some samples, PixelSpacing = Some [1 / 2, 1 / 4],
      SliceThickness = Some [thickness]\<rparr>"

text \<open>Two slices of one row and two columns, listed out of order, and a text file.\<close>

definition example_series :: "(string \<times> node) list" where
  "example_series =
     [(''b.dcm'', DicomFile (example_slice ''Ax T1'' 2 1 2 [3, 5] 3)),
      (''notes.txt'', OtherFile),
      (''A.DCM'', DicomFile (example_slice ''Ax T1'' 1 1 2 [1, 9] 2))]"

text \<open>The instance that the constructor makes of \<open>example_series\<close> with exact arithmetic.\<close>

definition example_vis :: MRIVisualization where
  "example_vis =
     \<lparr>slice_index = 0, view_axis = ''z'', slice_index_bounds = (0, 1),
      volume = \<lparr>shape3 = (1, 2, 2),
                cells = [[[Finite 0, Finite (1 / 4)], [Finite 1, Finite (1 / 2)]]]\<rparr>,
      spacing = (1 / 2, 1 / 4, Single 3)\<rparr>"


text \<open>A directory whose only \<^verbatim>\<open>.dcm\<close> file is not DICOM.\<close>

definition example_invalid :: "(string \<times> node) list" where
  "example_invalid = [(''x.dcm'', OtherFile)]"

text \<open>Two slices of different heights: two rows and two columns, then one row.\<close>

definition example_mixed :: "(string \<times> node) list" where
  "example_mixed =
     [(''1.dcm'', DicomFile (example_slice ''Ax T1'' 1 2 2 [1, 2, 3, 4] 2)),
      (''2.dcm'', DicomFile (example_slice ''Ax T1'' 2 1 2 [7, 8] 2))]"

text \<open>One slice whose samples are all equal.\<close>

definition example_constant :: "(string \<times> node) list" where
  "example_constant = [(''c.dcm'', DicomFile (example_slice ''Ax T1'' 1 1 2 [4, 4] 1))]"

text \<open>One slice whose normalization is not exact in float32.\<close>

definition example_thirds :: "(string \<times> node) list" where
  "example_thirds = [(''t.dcm'', DicomFile (example_slice ''Ax T1'' 1 1 3 [0, 1, 3] 1))]"

text \<open>Two slices of different heights the other way round: one row, then two rows.\<close>

definition example_grow :: "(string \<times> node) list" where
  "example_grow =
     [(''1.dcm'', DicomFile (example_slice ''Ax T1'' 1 1 2 [7, 8] 2)),
      (''2.dcm'', DicomFile (example_slice ''Ax T1'' 2 2 2 [1, 2, 3, 4] 2))]"

text \<open>A slice image and a DICOM file that has no InstanceNumber.\<close>

definition example_unnumbered :: "(string \<times> node) list" where
  "example_unnumbered =
     [(''1.dcm'', DicomFile (example_slice ''Ax T1'' 1 1 2 [7, 8] 2)),
      (''2.dcm'', DicomFile ((example_slice ''Ax T1'' 2 1 2 [1, 2] 2)\<lparr>InstanceNumber := None\<rparr>))]"

text \<open>A file that breaks off, listed before a T1 slice.\<close>

definition example_truncated :: "(string \<times> node) list" where
  "example_truncated =
     [(''a.dcm'', TruncatedFile),
      (''b.dcm'', DicomFile (example_slice ''Ax T1'' 1 1 2 [7, 8] 1))]"

text \<open>A slice whose series description has two values, listed before a T1 slice.\<close>

definition example_two_descriptions :: "(string \<times> node) list" where
  "example_two_descriptions =
     [(''a.dcm'', DicomFile ((example_slice ''Ax'' 1 1 2 [7, 8] 1)\<lparr>SeriesDescription := Some [''Ax'', ''T1'']\<rparr>)),
      (''b.dcm'', DicomFile (example_slice ''Ax T1'' 2 1 2 [7, 8] 1))]"

section \<open>Facts about strings\<close>



section \<open>Facts about elements\<close>

lemma the_one_eq: "the_one e = Some v \<longleftrightarrow> e = Some [v]"
  by (auto simp: the_one_def split: option.splits list.splits)

lemma the_one_None: "the_one e = None \<longleftrightarrow> (\<forall>v. e \<noteq> Some [v])"
  by (auto simp: the_one_def split: option.splits list.splits)

lemma attr_int_eq: "attr_int e = Inr v \<longleftrightarrow> e = Some [v]"
  by (auto simp: attr_int_def getattr_def py_int_def element_value_def
      split: option.splits list.splits sum.splits py_value.splits)

lemma attr_int_the_one: "attr_int e = Inr v \<longleftrightarrow> the_one e = Some v"
  by (simp add: attr_int_eq the_one_eq)

lemma attr_int_Inl: "(\<exists>err. attr_int e = Inl err) \<longleftrightarrow> the_one e = None"
proof (cases "attr_int e")
  case (Inl err)
  have "the_one e = None"
  proof (cases "the_one e")
    case (Some v)
    then have "attr_int e = Inr v" by (simp add: attr_int_the_one)
    with Inl show ?thesis by simp
  qed simp
  with Inl show ?thesis by simp
next
  case (Inr v)
  then have "the_one e = Some v" by (simp add: attr_int_the_one)
  with Inr show ?thesis by simp
qed

section \<open>The walk and the search\<close>















text \<open>
  C4, as stated, fails. The search catches \<^verbatim>\<open>InvalidDicomError\<close> alone. A \<^verbatim>\<open>.dcm\<close> file that
  breaks off fails to parse with another exception, and the search, instead of skipping
  it, ends with that exception although a T1 file follows. A data set whose series
  description has two values ends the search in the same way, at \<^verbatim>\<open>.lower()\<close>.
\<close>

theorem find_t1_series_first_match_counterexample:
  "find_t1_series ''scan'' example_truncated = ([Info_searching], Inl BytesLengthException) \<and>
   map_option fst (first_t1 (walk_files ''scan'' example_truncated)) = Some ''scan'' \<and>
   find_t1_series ''scan'' example_two_descriptions = ([Info_searching], Inl AttributeError) \<and>
   map_option fst (first_t1 (walk_files ''scan'' example_two_descriptions)) = Some ''scan''"
  by code_simp



section \<open>Arrays\<close>

lemma well_shaped3_lengths:
  assumes "well_shaped3 v" "shape3 v = (r, c, n)"
  shows "length (cells v) = r"
    and "p < r \<Longrightarrow> length (cells v ! p) = c"
    and "p < r \<Longrightarrow> q < c \<Longrightarrow> length (cells v ! p ! q) = n"
proof -
  show lv: "length (cells v) = r" using assms by (simp add: well_shaped3_def)
  have pl: "length plane = c \<and> (\<forall>cell \<in> set plane. length cell = n)" if "plane \<in> set (cells v)" for plane
    using assms that by (simp add: well_shaped3_def)
  show lp: "length (cells v ! p) = c" if "p < r"
    using pl[of "cells v ! p"] that lv by simp
  show "length (cells v ! p ! q) = n" if "p < r" "q < c"
  proof -
    have "cells v ! p \<in> set (cells v)" using that lv by simp
    moreover have "cells v ! p ! q \<in> set (cells v ! p)" using that lp by simp
    ultimately show ?thesis using pl by blast
  qed
qed

lemma well_shaped3_I:
  assumes "shape3 v = (r, c, n)" "length (cells v) = r"
    and "\<And>p. p < r \<Longrightarrow> length (cells v ! p) = c"
    and "\<And>p q. p < r \<Longrightarrow> q < c \<Longrightarrow> length (cells v ! p ! q) = n"
  shows "well_shaped3 v"
proof -
  have "length plane = c \<and> (\<forall>cell \<in> set plane. length cell = n)" if "plane \<in> set (cells v)" for plane
  proof -
    from that assms(2) obtain p where p: "p < r" "plane = cells v ! p"
      by (auto simp: in_set_conv_nth)
    have "length cell = n" if "cell \<in> set plane" for cell
    proof -
      from that p assms(3) obtain q where "q < c" "cell = cells v ! p ! q"
        by (auto simp: in_set_conv_nth)
      then show ?thesis using assms(4) p by simp
    qed
    then show ?thesis using p assms(3) by simp
  qed
  then show ?thesis using assms(1,2) by (simp add: well_shaped3_def)
qed

lemma elements_nth:
  assumes "well_shaped3 v" "shape3 v = (r, c, n)" "p < r" "q < c" "k < n"
  shows "cells v ! p ! q ! k \<in> set (elements v)"
proof -
  note l = well_shaped3_lengths[OF assms(1,2)]
  have 1: "cells v ! p \<in> set (cells v)" using assms l(1) by simp
  have 2: "cells v ! p ! q \<in> set (cells v ! p)" using assms l(2) by simp
  have 3: "cells v ! p ! q ! k \<in> set (cells v ! p ! q)" using assms l(3) by simp
  show ?thesis unfolding elements_def using 1 2 3 by auto
qed

lemma elements_cases:
  assumes "well_shaped3 v" "shape3 v = (r, c, n)" "x \<in> set (elements v)"
  shows "\<exists>p q k. p < r \<and> q < c \<and> k < n \<and> x = cells v ! p ! q ! k"
proof -
  from assms(3) obtain plane cell where pc: "plane \<in> set (cells v)" "cell \<in> set plane" "x \<in> set cell"
    by (auto simp: elements_def)
  have lv: "length (cells v) = r" using assms by (simp add: well_shaped3_def)
  from pc(1) lv obtain p where p: "p < r" "plane = cells v ! p"
    by (auto simp: in_set_conv_nth)
  have "length plane = c" using assms pc by (auto simp: well_shaped3_def)
  with pc(2) obtain q where q: "q < c" "cell = plane ! q"
    by (auto simp: in_set_conv_nth)
  have "length cell = n" using assms pc by (auto simp: well_shaped3_def)
  with pc(3) obtain k where k: "k < n" "x = cell ! k"
    by (auto simp: in_set_conv_nth)
  show ?thesis using p q k by blast
qed

lemma elements_nonempty:
  assumes "well_shaped3 v" "shape3 v = (r, c, n)" "0 < r" "0 < c" "0 < n"
  shows "elements v \<noteq> []"
  using elements_nth[OF assms(1,2), of 0 0 0] assms(3-5) by auto


lemma axis_index_nonneg:
  assumes "0 \<le> i"
  shows "axis_index n i = (if i < int n then Inr (nat i) else Inl IndexError)"
  using assms by (simp add: axis_index_def)

lemma take_z_nat:
  assumes "shape3 v = (r, c, n)" "k < n"
  shows "take_z v (int k) = Inr \<lparr>shape2 = (r, c), rows2 = map (map (\<lambda>cell. cell ! k)) (cells v)\<rparr>"
  using assms by (simp add: take_z_def axis_index_def)

lemma take_z_nth:
  assumes "well_shaped3 v" "shape3 v = (r, c, n)" "p < r" "q < c" "k < n" "take_z v (int k) = Inr a"
  shows "rows2 a ! p ! q = cells v ! p ! q ! k"
proof -
  note l = well_shaped3_lengths[OF assms(1,2)]
  have "a = \<lparr>shape2 = (r, c), rows2 = map (map (\<lambda>cell. cell ! k)) (cells v)\<rparr>"
    using assms(6) take_z_nat[OF assms(2,5)] by simp
  then show ?thesis using l(1) l(2)[OF assms(3)] assms(3,4) by simp
qed

text \<open>Two rectangular nested lists are equal when they agree at every position.\<close>

lemma rows_eqI:
  assumes "length xs = r" "length ys = r"
    and "\<And>p. p < r \<Longrightarrow> length (xs ! p) = c \<and> length (ys ! p) = c"
    and "\<And>p q. p < r \<Longrightarrow> q < c \<Longrightarrow> xs ! p ! q = ys ! p ! q"
  shows "xs = ys"
proof (rule nth_equalityI)
  show "length xs = length ys" using assms(1,2) by simp
next
  fix p assume "p < length xs"
  then have p: "p < r" using assms(1) by simp
  show "xs ! p = ys ! p"
  proof (rule nth_equalityI)
    show "length (xs ! p) = length (ys ! p)" using assms(3)[OF p] by simp
  next
    fix q assume "q < length (xs ! p)"
    then have "q < c" using assms(3)[OF p] by simp
    then show "xs ! p ! q = ys ! p ! q" using assms(4)[OF p] by simp
  qed
qed

text \<open>Plane \<open>i\<close> of a volume overwritten by a rectangle of rows of the right size.\<close>

lemma overwrite_plane:
  assumes v: "well_shaped3 v" "shape3 v = (r, c, n)"
    and b: "length rows = r" "\<forall>row \<in> set rows. length row = c"
    and i: "i < n"
    and v': "v' = v\<lparr>cells := map2 (\<lambda>plane row. map2 (\<lambda>cell x. cell[i := x]) plane row) (cells v) rows\<rparr>"
  shows "shape3 v' = (r, c, n)" and "well_shaped3 v'"
    and "\<forall>k < n. take_z v' (int k) =
           (if k = i then Inr \<lparr>shape2 = (r, c), rows2 = rows\<rparr> else take_z v (int k))"
    and "set (elements v') \<subseteq> set (elements v) \<union> set (concat rows)"
proof -
  note l = well_shaped3_lengths[OF v]
  have lr: "length (rows ! p) = c" if "p < r" for p
    using b that by simp
  show sh: "shape3 v' = (r, c, n)" using v by (simp add: v')
  have lv': "length (cells v') = r" using l(1) b(1) by (simp add: v')
  have lp': "length (cells v' ! p) = c" if "p < r" for p
    using that l(1) l(2)[OF that] lr[OF that] b(1) by (simp add: v')
  have cell': "cells v' ! p ! q = (cells v ! p ! q)[i := rows ! p ! q]" if "p < r" "q < c" for p q
    using that l(1) l(2)[OF that(1)] lr[OF that(1)] b(1) by (simp add: v')
  show ws: "well_shaped3 v'"
    using sh lv' lp' cell' l(3) by (intro well_shaped3_I[of v' r c n]) simp_all
  show "\<forall>k < n. take_z v' (int k) =
           (if k = i then Inr \<lparr>shape2 = (r, c), rows2 = rows\<rparr> else take_z v (int k))"
  proof (intro allI impI)
    fix k assume k: "k < n"
    have "map (map (\<lambda>cell. cell ! k)) (cells v') =
        (if k = i then rows else map (map (\<lambda>cell. cell ! k)) (cells v))"
    proof (cases "k = i")
      case True
      have "map (map (\<lambda>cell. cell ! k)) (cells v') = rows"
        using lv' lp' b(1) lr cell' l(3) True i
        by (intro rows_eqI[of _ r _ c]) simp_all
      then show ?thesis using True by simp
    next
      case False
      have "map (map (\<lambda>cell. cell ! k)) (cells v') = map (map (\<lambda>cell. cell ! k)) (cells v)"
        using lv' lp' l(1,2) cell' False
        by (intro rows_eqI[of _ r _ c]) simp_all
      then show ?thesis using False by simp
    qed
    then show "take_z v' (int k) =
           (if k = i then Inr \<lparr>shape2 = (r, c), rows2 = rows\<rparr> else take_z v (int k))"
      by (simp add: take_z_nat[OF sh k] take_z_nat[OF v(2) k])
  qed
  show "set (elements v') \<subseteq> set (elements v) \<union> set (concat rows)"
  proof
    fix x assume "x \<in> set (elements v')"
    from elements_cases[OF ws sh this]
    obtain p q k where pqk: "p < r" "q < c" "k < n" "x = cells v' ! p ! q ! k" by blast
    show "x \<in> set (elements v) \<union> set (concat rows)"
    proof (cases "k = i")
      case True
      then have "x = rows ! p ! q"
        using pqk cell'[OF pqk(1,2)] l(3)[OF pqk(1,2)] i by simp
      moreover have "rows ! p \<in> set rows" using pqk(1) b(1) by simp
      moreover have "rows ! p ! q \<in> set (rows ! p)" using pqk(2) lr[OF pqk(1)] by simp
      ultimately show ?thesis by auto
    next
      case False
      then have "x = cells v ! p ! q ! k"
        using pqk cell'[OF pqk(1,2)] by simp
      then show ?thesis using elements_nth[OF v pqk(1,2,3)] by simp
    qed
  qed
qed

lemma pixel_array_shape:
  assumes "pixel_array ds = Inr a"
  shows "Rows ds = Some [fst (shape2 a)]" "Columns ds = Some [snd (shape2 a)]" "well_shaped2 a"
    and "0 < fst (shape2 a)" "0 < snd (shape2 a)"
proof -
  from assms obtain r c samples where
    e: "attr_int (Rows ds) = Inr r" "attr_int (Columns ds) = Inr c" "PixelData ds = Some samples"
    and len: "r * c \<le> length samples" and pos: "0 < r" "0 < c"
    and a: "a = \<lparr>shape2 = (r, c), rows2 = map (\<lambda>i. take c (drop (i * c) samples)) [0..<r]\<rparr>"
    by (auto simp: pixel_array_def split: option.splits sum.splits if_splits)
  show "Rows ds = Some [fst (shape2 a)]" "Columns ds = Some [snd (shape2 a)]"
    using e a by (simp_all add: attr_int_eq)
  show "0 < fst (shape2 a)" "0 < snd (shape2 a)" using pos a by simp_all
  have "length (take c (drop (i * c) samples)) = c" if "i < r" for i
  proof -
    from that have "Suc i \<le> r" by simp
    then have "Suc i * c \<le> r * c" by (rule mult_le_mono1)
    then show ?thesis using len by simp
  qed
  then show "well_shaped2 a"
    by (auto simp: well_shaped2_def a)
qed

lemma pixel_array_pixel_slice:
  assumes "the_one (Rows ds) = Some r" "the_one (Columns ds) = Some c" "PixelData ds = Some samples"
    and "0 < r" "0 < c" "r * c \<le> length samples"
  shows "pixel_array ds =
     Inr \<lparr>shape2 = (r, c), rows2 = map (\<lambda>i. take c (drop (i * c) samples)) [0..<r]\<rparr>"
  using assms by (simp add: pixel_array_def flip: attr_int_the_one)

lemma well_shaped2_astype: "well_shaped2 a \<Longrightarrow> well_shaped2 (astype f a)"
  by (auto simp: well_shaped2_def astype_def)

lemma shape2_astype [simp]: "shape2 (astype f a) = shape2 a"
  by (simp add: astype_def)

lemma astype_elements:
  "x \<in> set (concat (rows2 (astype rnd a))) \<Longrightarrow> \<exists>i :: int. x = rnd (of_int i)"
  by (auto simp: astype_def)

lemma well_shaped3_zeros: "well_shaped3 (zeros (r, c, n))"
  by (simp add: well_shaped3_def zeros_def)

lemma shape3_zeros [simp]: "shape3 (zeros s) = s"
  by (cases s) (simp add: zeros_def)

lemma elements_zeros: "x \<in> set (elements (zeros s)) \<Longrightarrow> x = 0"
  by (cases s) (auto simp: zeros_def elements_def)

lemma broadcast_to_same: "shape2 a = (r, c) \<Longrightarrow> broadcast_to r c a = rows2 a"
  by (simp add: broadcast_to_def)

text \<open>Where numpy allows the broadcast, its result fills the target and repeats the source.\<close>

lemma broadcast_to_shape:
  assumes "well_shaped2 a"
    and "fst (shape2 a) = r \<or> fst (shape2 a) = 1" "snd (shape2 a) = c \<or> snd (shape2 a) = 1"
  shows "length (broadcast_to r c a) = r"
    and "\<forall>row \<in> set (broadcast_to r c a). length row = c"
    and "set (concat (broadcast_to r c a)) \<subseteq> set (concat (rows2 a))"
proof -
  let ?rs = "if fst (shape2 a) = r then rows2 a else replicate r (hd (rows2 a))"
  let ?f = "\<lambda>row. if snd (shape2 a) = c then row else replicate c (hd row)"
  have b: "broadcast_to r c a = map ?f ?rs" by (simp add: broadcast_to_def)
  have la: "length (rows2 a) = fst (shape2 a)"
    and lr: "\<And>row. row \<in> set (rows2 a) \<Longrightarrow> length row = snd (shape2 a)"
    using assms(1) by (simp_all add: well_shaped2_def)
  have hd_in: "hd (rows2 a) \<in> set (rows2 a)" if "fst (shape2 a) \<noteq> r"
  proof -
    from that assms(2) la have "rows2 a \<noteq> []" by auto
    then show ?thesis by simp
  qed
  have rs_sub: "set ?rs \<subseteq> set (rows2 a)"
    using hd_in by auto
  show "length (broadcast_to r c a) = r"
    using la by (simp add: b)
  show "\<forall>row \<in> set (broadcast_to r c a). length row = c"
    using rs_sub lr by (auto simp: b)
  show "set (concat (broadcast_to r c a)) \<subseteq> set (concat (rows2 a))"
  proof
    fix x assume "x \<in> set (concat (broadcast_to r c a))"
    then have "\<exists>row \<in> set ?rs. x \<in> set (?f row)"
      unfolding b set_concat set_map by blast
    then obtain row where row: "row \<in> set ?rs" "x \<in> set (?f row)"
      by blast
    from row(1) rs_sub have ra: "row \<in> set (rows2 a)" by blast
    have "x \<in> set row"
    proof (cases "snd (shape2 a) = c")
      case True
      with row(2) show ?thesis by simp
    next
      case False
      with assms(3) lr[OF ra] have "row \<noteq> []" by auto
      moreover from False row(2) have "x = hd row" by (auto split: if_splits)
      ultimately show ?thesis by simp
    qed
    with ra show "x \<in> set (concat (rows2 a))" by auto
  qed
qed

lemma set_plane_cases:
  assumes v: "well_shaped3 v" "shape3 v = (r, c, n)"
    and a: "well_shaped2 a"
    and s: "set_plane v i a = Inr v'"
  shows "i < n" and "shape3 v' = (r, c, n)" and "well_shaped3 v'"
    and "\<forall>k < n. take_z v' (int k) =
           (if k = i then Inr \<lparr>shape2 = (r, c), rows2 = broadcast_to r c a\<rparr> else take_z v (int k))"
    and "set (elements v') \<subseteq> set (elements v) \<union> set (concat (rows2 a))"
proof -
  from s v(2) have i: "i < n"
    and ok: "fst (shape2 a) = r \<or> fst (shape2 a) = 1" "snd (shape2 a) = c \<or> snd (shape2 a) = 1"
    and v': "v' = v\<lparr>cells := map2 (\<lambda>plane row. map2 (\<lambda>cell x. cell[i := x]) plane row)
                (cells v) (broadcast_to r c a)\<rparr>"
    by (auto simp: set_plane_def split: if_splits)
  note b = broadcast_to_shape[OF a ok]
  note o = overwrite_plane[OF v b(1,2) i v']
  show "i < n" by (rule i)
  show "shape3 v' = (r, c, n)" by (rule o(1))
  show "well_shaped3 v'" by (rule o(2))
  show "\<forall>k < n. take_z v' (int k) =
           (if k = i then Inr \<lparr>shape2 = (r, c), rows2 = broadcast_to r c a\<rparr> else take_z v (int k))"
    by (rule o(3))
  show "set (elements v') \<subseteq> set (elements v) \<union> set (concat (rows2 a))"
    using o(4) b(3) by blast
qed

lemma set_plane_same_shape:
  assumes v: "shape3 v = (r, c, n)" and a: "shape2 a = (r, c)" and i: "i < n"
  shows "\<exists>v'. set_plane v i a = Inr v'"
  using assms by (simp add: set_plane_def)

lemma well_shaped3_map [simp]: "well_shaped3 (map_array3 f v) = well_shaped3 v"
  by (auto simp: well_shaped3_def map_array3_def split: prod.splits)

lemma shape3_map [simp]: "shape3 (map_array3 f v) = shape3 v"
  by (simp add: map_array3_def)

lemma elements_map: "elements (map_array3 f v) = map f (elements v)"
  by (simp add: elements_def map_array3_def map_concat)


lemma fold_min_Min: "fold min xs (x::rat) = Min (set (x # xs))"
  by (rule Min.set_eq_fold[symmetric])

lemma fold_max_Max: "fold max xs (x::rat) = Max (set (x # xs))"
  by (rule Max.set_eq_fold[symmetric])

lemma amin_cases:
  "amin v = (if elements v = [] then Inl ValueError else Inr (Min (set (elements v))))"
  by (cases "elements v") (simp_all add: amin_def fold_min_Min del: set_simps)

lemma amax_cases:
  "amax v = (if elements v = [] then Inl ValueError else Inr (Max (set (elements v))))"
  by (cases "elements v") (simp_all add: amax_def fold_max_Max del: set_simps)

lemma normalize_volume_cases:
  "normalize_volume rnd v =
     (if elements v = [] then Inl ValueError
      else Inr (map_array3 (normalize_value rnd (Min (set (elements v))) (Max (set (elements v)))) v))"
  by (simp add: normalize_volume_def amin_cases amax_cases)

section \<open>Sorting and stacking\<close>

lemma map_insort_key:
  assumes "kf x = kg (h x)" "\<forall>y \<in> set ys. kf y = kg (h y)"
  shows "map h (insort_key kf x ys) = insort_key kg (h x) (map h ys)"
  using assms by (induction ys) auto

lemma map_sort_key:
  assumes "\<forall>x \<in> set xs. kf x = kg (h x)"
  shows "map h (sort_key kf xs) = sort_key kg (map h xs)"
  using assms
proof (induction xs)
  case Nil
  then show ?case by simp
next
  case (Cons x xs)
  then show ?case
    by (simp add: map_insort_key)
qed

lemma datasets_of_DicomFile [simp]: "datasets_of (map DicomFile dss) = dss"
  by (induction dss) simp_all

lemma instance_key_sortable:
  "instance_key f =
     (if sortable (snd f) then Inr (node_instance (snd f)) else Inl (key_error (snd f)))"
proof (cases "snd f")
  case (DicomFile ds)
  show ?thesis
  proof (cases "the_one (InstanceNumber ds)")
    case None
    then have "attr_int (InstanceNumber ds) = Inl (key_error (DicomFile ds))"
      by (auto simp: attr_int_def getattr_def py_int_def element_value_def the_one_def
          split: option.splits list.splits)
    with None DicomFile show ?thesis by (simp add: instance_key_def)
  next
    case (Some n)
    then have "attr_int (InstanceNumber ds) = Inr n" by (simp add: attr_int_the_one)
    with Some DicomFile show ?thesis by (simp add: instance_key_def instance_number_def)
  qed
qed (simp_all add: instance_key_def)

lemma instance_key_cases:
  assumes "instance_key f = Inr k"
  shows "\<exists>ds. snd f = DicomFile ds \<and> InstanceNumber ds = Some [k]"
proof -
  from assms have s: "sortable (snd f)" "k = node_instance (snd f)"
    by (auto simp: instance_key_sortable split: if_splits)
  then obtain ds where ds: "snd f = DicomFile ds" by (cases "snd f") simp_all
  with s obtain n where "the_one (InstanceNumber ds) = Some n" by auto
  with s ds show ?thesis by (simp add: instance_number_def the_one_eq)
qed

lemma try_map_instance_key_error:
  assumes "find (\<lambda>f. \<not> sortable (snd f)) fs = Some f"
  shows "try_map instance_key fs = Inl (key_error (snd f))"
  using assms
proof (induction fs)
  case Nil
  then show ?case by simp
next
  case (Cons g fs)
  then show ?case
    by (cases "sortable (snd g)") (auto simp: instance_key_sortable)
qed

lemma try_map_instance_key_cases:
  assumes "try_map instance_key fs = Inr keys"
  shows "map snd fs = map DicomFile (datasets_of (map snd fs)) \<and>
         (\<forall>ds \<in> set (datasets_of (map snd fs)). the_one (InstanceNumber ds) \<noteq> None) \<and>
         (\<forall>f \<in> set fs. sortable (snd f)) \<and>
         keys = map (\<lambda>f. node_instance (snd f)) fs"
  using assms
proof (induction fs arbitrary: keys)
  case Nil
  then show ?case by simp
next
  case (Cons f fs)
  from Cons.prems obtain k ks where k: "instance_key f = Inr k" "try_map instance_key fs = Inr ks"
    "keys = k # ks"
    by (auto split: sum.splits)
  from instance_key_cases[OF k(1)] obtain ds where ds: "snd f = DicomFile ds" "InstanceNumber ds = Some [k]"
    by blast
  then have "the_one (InstanceNumber ds) = Some k" by (simp add: the_one_eq)
  with Cons.IH[OF k(2)] ds k(3) show ?case
    by (simp add: instance_number_def)
qed

lemma try_map_instance_key:
  assumes "map snd fs = map DicomFile dss" "\<forall>ds \<in> set dss. the_one (InstanceNumber ds) \<noteq> None"
  shows "try_map instance_key fs = Inr (map (\<lambda>f. node_instance (snd f)) fs)"
  using assms
proof (induction fs arbitrary: dss)
  case Nil
  then show ?case by simp
next
  case (Cons f fs)
  then obtain ds dss' where dss: "dss = ds # dss'" "snd f = DicomFile ds" "map snd fs = map DicomFile dss'"
    by (cases dss) auto
  with Cons.prems have n: "sortable (snd f)" by auto
  have "try_map instance_key fs = Inr (map (\<lambda>f. node_instance (snd f)) fs)"
    using Cons.IH[OF dss(3)] Cons.prems(2) dss by simp
  moreover have "instance_key f = Inr (node_instance (snd f))"
    using n by (simp add: instance_key_sortable)
  ultimately show ?case by simp
qed

lemma sorted_entries:
  assumes "map snd fs = map DicomFile dss"
  shows "map snd (map snd (sort_key fst (zip (map (\<lambda>f. node_instance (snd f)) fs) fs))) =
    map DicomFile (sort_key instance_number dss)"
proof -
  let ?k = "\<lambda>f. node_instance (snd f)"
  have z: "zip (map ?k fs) fs = map (\<lambda>f. (?k f, f)) fs"
    by (induction fs) auto
  have "map (\<lambda>f. (?k f, f)) (sort_key ?k fs) = sort_key fst (map (\<lambda>f. (?k f, f)) fs)"
    by (rule map_sort_key) simp
  then have "map snd (sort_key fst (zip (map ?k fs) fs)) = map snd (map (\<lambda>f. (?k f, f)) (sort_key ?k fs))"
    by (simp add: z)
  then have s1: "map snd (sort_key fst (zip (map ?k fs) fs)) = sort_key ?k fs"
    by (simp add: comp_def)
  have s2: "map snd (sort_key ?k fs) = sort_key node_instance (map snd fs)"
    by (rule map_sort_key) simp
  have s3: "map DicomFile (sort_key instance_number dss) = sort_key node_instance (map DicomFile dss)"
    by (rule map_sort_key) simp
  show ?thesis using s1 s2 s3 assms by simp
qed

lemma sort_by_instance_spec:
  assumes "map snd fs = map DicomFile dss" "\<forall>ds \<in> set dss. the_one (InstanceNumber ds) \<noteq> None"
  shows "\<exists>fs'. sort_by_instance fs = Inr fs' \<and>
           map snd fs' = map DicomFile (sort_key instance_number dss)"
  using try_map_instance_key[OF assms] sorted_entries[OF assms(1)]
  by (simp add: sort_by_instance_def)

lemma sort_by_instance_cases:
  assumes "sort_by_instance fs = Inr fs'"
  shows "map snd fs = map DicomFile (datasets_of (map snd fs))"
    and "\<forall>ds \<in> set (datasets_of (map snd fs)). the_one (InstanceNumber ds) \<noteq> None"
    and "map snd fs' = map DicomFile (sort_key instance_number (datasets_of (map snd fs)))"
    and "\<forall>f \<in> set fs. sortable (snd f)"
proof -
  from assms obtain keys where k: "try_map instance_key fs = Inr keys"
    "fs' = map snd (sort_key fst (zip keys fs))"
    by (auto simp: sort_by_instance_def split: sum.splits)
  note t = try_map_instance_key_cases[OF k(1)]
  show m: "map snd fs = map DicomFile (datasets_of (map snd fs))" using t by simp
  show "\<forall>ds \<in> set (datasets_of (map snd fs)). the_one (InstanceNumber ds) \<noteq> None" using t by simp
  show "map snd fs' = map DicomFile (sort_key instance_number (datasets_of (map snd fs)))"
    using sorted_entries[OF m] t k(2) by simp
  show "\<forall>f \<in> set fs. sortable (snd f)" using t by simp
qed

lemma sort_by_instance_error:
  assumes "find (\<lambda>f. \<not> sortable (snd f)) fs = Some f"
  shows "sort_by_instance fs = Inl (key_error (snd f))"
  using try_map_instance_key_error[OF assms] by (simp add: sort_by_instance_def)

text \<open>What a completed run of the loop has done, whatever the shapes of the files.\<close>

lemma stack_loop_cases:
  assumes "well_shaped3 v" "shape3 v = (r, c, n)"
    and "map snd files = map DicomFile dss"
    and "stack_loop rnd (enumerate i0 files) (v, d) = Inr (v', d')"
  shows "i0 + length dss \<le> n \<or> dss = []" and "d' = last (d # dss)"
    and "shape3 v' = (r, c, n)" and "well_shaped3 v'"
    and "\<forall>k < n. take_z v' (int k) =
           (if i0 \<le> k \<and> k < i0 + length dss
            then map_sum id (\<lambda>a. \<lparr>shape2 = (r, c), rows2 = broadcast_to r c (astype rnd a)\<rparr>)
                   (pixel_array (dss ! (k - i0)))
            else take_z v (int k))"
    and "\<forall>x \<in> set (elements v'). x \<in> set (elements v) \<or> (\<exists>i :: int. x = rnd (of_int i))"
    and "\<forall>ds \<in> set dss. \<exists>a. pixel_array ds = Inr a"
proof -
  have "(i0 + length dss \<le> n \<or> dss = []) \<and> d' = last (d # dss) \<and>
    shape3 v' = (r, c, n) \<and> well_shaped3 v' \<and>
    (\<forall>k < n. take_z v' (int k) =
           (if i0 \<le> k \<and> k < i0 + length dss
            then map_sum id (\<lambda>a. \<lparr>shape2 = (r, c), rows2 = broadcast_to r c (astype rnd a)\<rparr>)
                   (pixel_array (dss ! (k - i0)))
            else take_z v (int k))) \<and>
    (\<forall>x \<in> set (elements v'). x \<in> set (elements v) \<or> (\<exists>i :: int. x = rnd (of_int i))) \<and>
    (\<forall>ds \<in> set dss. \<exists>a. pixel_array ds = Inr a)"
    using assms
  proof (induction files arbitrary: dss i0 v d)
    case Nil
    then show ?case by auto
  next
    case (Cons entry files)
    from Cons.prems(3) obtain ds dss1 where dss: "dss = ds # dss1" "snd entry = DicomFile ds"
      "map snd files = map DicomFile dss1"
      by (cases dss) auto
    from Cons.prems(4) dss(2) obtain a v1 where a: "pixel_array ds = Inr a"
      and v1: "set_plane v i0 (astype rnd a) = Inr v1"
      and rest: "stack_loop rnd (enumerate (Suc i0) files) (v1, ds) = Inr (v', d')"
      by (cases entry) (auto split: sum.splits)
    have wa: "well_shaped2 (astype rnd a)"
      using pixel_array_shape(3)[OF a] by (rule well_shaped2_astype)
    note sp = set_plane_cases[OF Cons.prems(1,2) wa v1]
    from Cons.IH[OF sp(3) sp(2) dss(3) rest]
    have ih: "Suc i0 + length dss1 \<le> n \<or> dss1 = []" "d' = last (ds # dss1)"
      "shape3 v' = (r, c, n)" "well_shaped3 v'"
      "\<forall>k < n. take_z v' (int k) =
           (if Suc i0 \<le> k \<and> k < Suc i0 + length dss1
            then map_sum id (\<lambda>a. \<lparr>shape2 = (r, c), rows2 = broadcast_to r c (astype rnd a)\<rparr>)
                   (pixel_array (dss1 ! (k - Suc i0)))
            else take_z v1 (int k))"
      "\<forall>x \<in> set (elements v'). x \<in> set (elements v1) \<or> (\<exists>i :: int. x = rnd (of_int i))"
      "\<forall>ds \<in> set dss1. \<exists>a. pixel_array ds = Inr a"
      by simp_all
    have len: "i0 + length dss \<le> n"
      using ih(1) sp(1) dss(1) by auto
    have tz: "take_z v' (int k) =
           (if i0 \<le> k \<and> k < i0 + length dss
            then map_sum id (\<lambda>a. \<lparr>shape2 = (r, c), rows2 = broadcast_to r c (astype rnd a)\<rparr>)
                   (pixel_array (dss ! (k - i0)))
            else take_z v (int k))" if k: "k < n" for k
    proof (cases "k = i0")
      case True
      then show ?thesis using ih(5) sp(4) k dss(1) a by simp
    next
      case False
      then have "dss ! (k - i0) = dss1 ! (k - Suc i0)" if "i0 \<le> k"
        using that dss(1) by (simp add: nth_Cons')
      then show ?thesis using ih(5) sp(4) k dss(1) False by auto
    qed
    have el: "x \<in> set (elements v) \<or> (\<exists>i :: int. x = rnd (of_int i))" if "x \<in> set (elements v')" for x
    proof -
      from ih(6) that consider "x \<in> set (elements v1)" | "\<exists>i :: int. x = rnd (of_int i)" by blast
      then show ?thesis
      proof cases
        case 1
        with sp(5) have "x \<in> set (elements v) \<or> x \<in> set (concat (rows2 (astype rnd a)))" by blast
        then show ?thesis using astype_elements by blast
      qed simp
    qed
    show ?case
      using len ih(2,3,4,7) dss(1) a tz el by auto
  qed
  then show "i0 + length dss \<le> n \<or> dss = []" and "d' = last (d # dss)"
    and "shape3 v' = (r, c, n)" and "well_shaped3 v'"
    and "\<forall>k < n. take_z v' (int k) =
           (if i0 \<le> k \<and> k < i0 + length dss
            then map_sum id (\<lambda>a. \<lparr>shape2 = (r, c), rows2 = broadcast_to r c (astype rnd a)\<rparr>)
                   (pixel_array (dss ! (k - i0)))
            else take_z v (int k))"
    and "\<forall>x \<in> set (elements v'). x \<in> set (elements v) \<or> (\<exists>i :: int. x = rnd (of_int i))"
    and "\<forall>ds \<in> set dss. \<exists>a. pixel_array ds = Inr a"
    by blast+
qed

text \<open>The loop completes when every file has pixel data of the shape of the volume.\<close>

lemma stack_loop_completes:
  assumes "shape3 v = (r, c, n)" "well_shaped3 v"
    and "i0 + length dss \<le> n"
    and "map snd files = map DicomFile dss"
    and "\<forall>ds \<in> set dss. \<exists>a. pixel_array ds = Inr a \<and> shape2 a = (r, c)"
  shows "\<exists>v' d'. stack_loop rnd (enumerate i0 files) (v, d) = Inr (v', d')"
  using assms
proof (induction files arbitrary: dss i0 v d)
  case Nil
  then show ?case by simp
next
  case (Cons entry files)
  from Cons.prems(4) obtain ds dss1 where dss: "dss = ds # dss1" "snd entry = DicomFile ds"
    "map snd files = map DicomFile dss1"
    by (cases dss) auto
  from Cons.prems(5) dss obtain a where a: "pixel_array ds = Inr a" "shape2 a = (r, c)"
    by auto
  have i0: "i0 < n" using Cons.prems(3) dss by simp
  from set_plane_same_shape[OF Cons.prems(1) _ i0, of "astype rnd a"] a
  obtain v1 where v1: "set_plane v i0 (astype rnd a) = Inr v1" by auto
  have wa: "well_shaped2 (astype rnd a)"
    using pixel_array_shape(3)[OF a(1)] by (rule well_shaped2_astype)
  note sp = set_plane_cases[OF Cons.prems(2,1) wa v1]
  have "\<exists>v' d'. stack_loop rnd (enumerate (Suc i0) files) (v1, ds) = Inr (v', d')"
    using Cons.prems(3,5) dss by (intro Cons.IH[OF sp(2) sp(3) _ dss(3)]) auto
  then show ?case
    using dss a v1 by (cases entry) simp
qed

section \<open>The series and the loader\<close>

lemma series_slices_facts:
  "length (series_slices listing) = length (series_datasets listing)"
  "set (series_slices listing) = set (series_datasets listing)"
  "mset (series_slices listing) = mset (series_datasets listing)"
  "sorted (map instance_number (series_slices listing))"
  by (simp_all add: series_slices_def)

lemma stack_series_cases:
  assumes "stack_series rnd listing = Inr (stacked, ds)"
  shows "dicom_entries listing \<noteq> []"
    and "map snd (dicom_entries listing) = map DicomFile (series_datasets listing)"
    and "\<forall>d \<in> set (series_datasets listing). the_one (InstanceNumber d) \<noteq> None"
    and "ds = last (series_slices listing)"
    and "\<exists>r c. Rows (hd (series_slices listing)) = Some [r] \<and>
           Columns (hd (series_slices listing)) = Some [c] \<and> 0 < r \<and> 0 < c \<and>
           shape3 stacked = (r, c, length (series_slices listing)) \<and> well_shaped3 stacked \<and>
           (\<forall>k < length (series_slices listing). \<exists>a.
              pixel_array (series_slices listing ! k) = Inr a \<and>
              take_z stacked (int k) =
                Inr \<lparr>shape2 = (r, c), rows2 = broadcast_to r c (astype rnd a)\<rparr>)"
    and "\<forall>x \<in> set (elements stacked). x = 0 \<or> (\<exists>i :: int. x = rnd (of_int i))"
    and "\<forall>f \<in> set (dicom_entries listing). sortable (snd f)"
proof -
  let ?dss = "series_slices listing"
  from assms obtain fs first rest ds0 r c where
    fs: "sort_by_instance (dicom_entries listing) = Inr fs" "fs = first # rest"
    and ds0: "dcmread False (snd first) = Inr ds0" "attr_int (Rows ds0) = Inr r"
      "attr_int (Columns ds0) = Inr c"
    and loop: "stack_loop rnd (enumerate 0 fs) (zeros (r, c, length fs), ds0) = Inr (stacked, ds)"
    by (auto simp: stack_series_def split: sum.splits list.splits option.splits)
  note s = sort_by_instance_cases[OF fs(1)]
  show "\<forall>f \<in> set (dicom_entries listing). sortable (snd f)" by (rule s(4))
  show m: "map snd (dicom_entries listing) = map DicomFile (series_datasets listing)"
    using s(1) by (simp add: series_datasets_def)
  show "\<forall>d \<in> set (series_datasets listing). the_one (InstanceNumber d) \<noteq> None"
    using s(2) by (simp add: series_datasets_def)
  have mf: "map snd fs = map DicomFile ?dss"
    using s(3) by (simp add: series_slices_def series_datasets_def)
  then have lfs: "length fs = length ?dss" by (metis length_map)
  then have ne: "?dss \<noteq> []" using fs(2) by auto
  then show "dicom_entries listing \<noteq> []"
    using series_slices_facts(1)[of listing] m by (metis length_0_conv length_map)
  have "snd first = DicomFile (hd ?dss)"
    using mf fs(2) ne by (cases ?dss) auto
  with ds0 have hd: "ds0 = hd ?dss" by simp
  note l = stack_loop_cases[OF well_shaped3_zeros shape3_zeros mf loop]
  show "ds = last ?dss" using l(2) ne by simp
  have tz: "\<exists>a. pixel_array (?dss ! k) = Inr a \<and>
              take_z stacked (int k) =
                Inr \<lparr>shape2 = (r, c), rows2 = broadcast_to r c (astype rnd a)\<rparr>"
    if k: "k < length ?dss" for k
  proof -
    from l(7) k obtain a where "pixel_array (?dss ! k) = Inr a" by (meson nth_mem)
    with l(5) k lfs show ?thesis by simp
  qed
  have "hd ?dss \<in> set ?dss" using ne by simp
  with l(7) obtain a0 where a0: "pixel_array (hd ?dss) = Inr a0" by blast
  have rows: "Rows (hd ?dss) = Some [r]" "Columns (hd ?dss) = Some [c]"
    using ds0(2,3) hd by (simp_all add: attr_int_eq)
  with pixel_array_shape[OF a0] have pos: "0 < r" "0 < c" by simp_all
  show "\<exists>r c. Rows (hd ?dss) = Some [r] \<and> Columns (hd ?dss) = Some [c] \<and> 0 < r \<and> 0 < c \<and>
           shape3 stacked = (r, c, length ?dss) \<and> well_shaped3 stacked \<and>
           (\<forall>k < length ?dss. \<exists>a.
              pixel_array (?dss ! k) = Inr a \<and>
              take_z stacked (int k) =
                Inr \<lparr>shape2 = (r, c), rows2 = broadcast_to r c (astype rnd a)\<rparr>)"
    using rows pos l(3,4) lfs tz by auto
  show "\<forall>x \<in> set (elements stacked). x = 0 \<or> (\<exists>i :: int. x = rnd (of_int i))"
    using l(6) elements_zeros by blast
qed

lemma stack_series_error:
  assumes "find (\<lambda>f. \<not> sortable (snd f)) (dicom_entries listing) = Some f"
  shows "stack_series rnd listing = Inl (key_error (snd f))"
  using sort_by_instance_error[OF assms] by (simp add: stack_series_def)

lemma pixel_slice_pixel_array:
  assumes "pixel_slice ds"
  shows "\<exists>a r c. pixel_array ds = Inr a \<and> shape2 a = (r, c) \<and> Rows ds = Some [r] \<and>
           Columns ds = Some [c] \<and> 0 < r \<and> 0 < c"
proof -
  from assms obtain r c samples where
    e: "the_one (Rows ds) = Some r" "the_one (Columns ds) = Some c" "PixelData ds = Some samples"
      "0 < r" "0 < c" "r * c \<le> length samples"
    by (auto simp: pixel_slice_def split: option.splits)
  from pixel_array_pixel_slice[OF e] e show ?thesis
    by (auto simp: the_one_eq)
qed

lemma slice_series_facts:
  assumes "slice_series listing"
  shows "series_slices listing \<noteq> []"
    and "length (series_slices listing) = length (dicom_entries listing)"
    and "\<forall>ds \<in> set (series_slices listing). pixel_slice ds"
    and "\<forall>ds \<in> set (series_slices listing).
           Rows ds = Rows (hd (series_slices listing)) \<and> Columns ds = Columns (hd (series_slices listing))"
proof -
  have len: "length (series_datasets listing) = length (dicom_entries listing)"
    using assms by (metis slice_series_def length_map)
  then show "length (series_slices listing) = length (dicom_entries listing)"
    by (simp add: series_slices_facts)
  with assms show ne: "series_slices listing \<noteq> []"
    by (auto simp: slice_series_def)
  show "\<forall>ds \<in> set (series_slices listing). pixel_slice ds"
    using assms by (simp add: slice_series_def series_slices_facts)
  have "hd (series_slices listing) \<in> set (series_datasets listing)"
    using ne series_slices_facts(2)[of listing] by (metis hd_in_set)
  then show "\<forall>ds \<in> set (series_slices listing).
           Rows ds = Rows (hd (series_slices listing)) \<and> Columns ds = Columns (hd (series_slices listing))"
    using assms by (simp add: slice_series_def series_slices_facts)
qed

lemma slice_series_shapes:
  assumes "slice_series listing"
  shows "\<exists>r c. Rows (hd (series_slices listing)) = Some [r] \<and> Columns (hd (series_slices listing)) = Some [c] \<and>
           (\<forall>ds \<in> set (series_slices listing). \<exists>a. pixel_array ds = Inr a \<and> shape2 a = (r, c))"
proof -
  let ?dss = "series_slices listing"
  note f = slice_series_facts[OF assms]
  have hd_in: "hd ?dss \<in> set ?dss" using f(1) by simp
  from pixel_slice_pixel_array[of "hd ?dss"] f(3) hd_in
  obtain r c where rc: "Rows (hd ?dss) = Some [r]" "Columns (hd ?dss) = Some [c]"
    by blast
  have "\<exists>a. pixel_array ds = Inr a \<and> shape2 a = (r, c)" if ds: "ds \<in> set ?dss" for ds
  proof -
    from ds f(3) pixel_slice_pixel_array[of ds]
    obtain a r' c' where a: "pixel_array ds = Inr a" "shape2 a = (r', c')" "Rows ds = Some [r']"
      "Columns ds = Some [c']" by blast
    with f(4) ds rc have "r' = r" "c' = c" by auto
    with a show ?thesis by blast
  qed
  with rc show ?thesis by blast
qed

lemma stack_series_completes:
  assumes "slice_series listing"
  shows "\<exists>stacked ds. stack_series rnd listing = Inr (stacked, ds)"
proof -
  let ?dss = "series_slices listing"
  note f = slice_series_facts[OF assms]
  from slice_series_shapes[OF assms] obtain r c where
    rc: "Rows (hd ?dss) = Some [r]" "Columns (hd ?dss) = Some [c]"
    and px: "\<forall>ds \<in> set ?dss. \<exists>a. pixel_array ds = Inr a \<and> shape2 a = (r, c)"
    by blast
  have inst: "\<forall>ds \<in> set (series_datasets listing). the_one (InstanceNumber ds) \<noteq> None"
    using assms by (simp add: slice_series_def pixel_slice_def)
  have m: "map snd (dicom_entries listing) = map DicomFile (series_datasets listing)"
    using assms by (simp add: slice_series_def)
  from sort_by_instance_spec[OF m inst]
  obtain fs where fs: "sort_by_instance (dicom_entries listing) = Inr fs"
    "map snd fs = map DicomFile ?dss"
    by (auto simp: series_slices_def)
  have lfs: "length fs = length ?dss"
    using fs(2) by (metis length_map)
  with f(1) obtain first rest where fr: "fs = first # rest"
    by (cases fs) auto
  have first: "snd first = DicomFile (hd ?dss)"
    using fs(2) fr f(1) by (cases ?dss) auto
  have "\<exists>v' d'. stack_loop rnd (enumerate 0 fs) (zeros (r, c, length fs), hd ?dss) = Inr (v', d')"
    using lfs by (intro stack_loop_completes[OF shape3_zeros well_shaped3_zeros _ fs(2) px]) simp
  then show ?thesis
    using fs(1) fr first rc by (auto simp: stack_series_def attr_int_eq[THEN iffD2])
qed

lemma slice_series_planes:
  assumes "slice_series listing" "stack_series rnd listing = Inr (stacked, ds)"
    and "k < length (series_slices listing)"
  shows "\<exists>a. pixel_array (series_slices listing ! k) = Inr a \<and>
           take_z stacked (int k) = Inr (astype rnd a)"
proof -
  let ?dss = "series_slices listing"
  from slice_series_shapes[OF assms(1)] obtain r c where
    rc: "Rows (hd ?dss) = Some [r]" "Columns (hd ?dss) = Some [c]"
    and px: "\<forall>ds \<in> set ?dss. \<exists>a. pixel_array ds = Inr a \<and> shape2 a = (r, c)"
    by blast
  from stack_series_cases(5)[OF assms(2)] rc assms(3)
  obtain a where a: "pixel_array (?dss ! k) = Inr a"
    "take_z stacked (int k) = Inr \<lparr>shape2 = (r, c), rows2 = broadcast_to r c (astype rnd a)\<rparr>"
    by auto
  from px assms(3) a(1) have sh: "shape2 a = (r, c)"
    by (metis nth_mem sum.inject(2))
  then have "\<lparr>shape2 = (r, c), rows2 = broadcast_to r c (astype rnd a)\<rparr> = astype rnd a"
    by (simp add: broadcast_to_same astype_def)
  with a show ?thesis by simp
qed

lemma spacing_of_eq:
  "spacing_of ds =
     (case PixelSpacing ds of
        None \<Rightarrow> Inl AttributeError
      | Some ps \<Rightarrow>
          (case SliceThickness ds of
             None \<Rightarrow> Inl AttributeError
           | Some ts \<Rightarrow>
               if 2 \<le> length ps then Inr (ps ! 0, ps ! 1, element_value ts) else Inl TypeError))"
proof (cases "PixelSpacing ds")
  case None
  then show ?thesis by (simp add: spacing_of_def getattr_def)
next
  case (Some ps)
  show ?thesis
  proof (cases "SliceThickness ds")
    case None
    with Some show ?thesis by (simp add: spacing_of_def getattr_def)
  next
    case (Some ts)
    consider "ps = []" | a where "ps = [a]" | a b rest where "ps = a # b # rest"
      by (cases ps; cases "tl ps") auto
    then show ?thesis
      using Some \<open>PixelSpacing ds = Some ps\<close>
      by cases (simp_all add: spacing_of_def getattr_def element_value_def py_index_def)
  qed
qed

lemma spacing_of_cases:
  assumes "spacing_of ds = Inr sp"
  shows "\<exists>ps ts. PixelSpacing ds = Some ps \<and> 2 \<le> length ps \<and> SliceThickness ds = Some ts \<and>
           sp = (ps ! 0, ps ! 1, element_value ts)"
  using assms by (auto simp: spacing_of_eq split: option.splits if_splits)

lemma spacing_of_slice:
  assumes "slice_image ds"
  shows "\<exists>sp. spacing_of ds = Inr sp"
  using assms by (auto simp: slice_image_def spacing_of_eq split: option.splits)

lemma load_dicom_series_cases:
  assumes "load_dicom_series rnd directory listing = (l, Inr (vol, sp))"
  shows "l = [Info_loading directory]"
    and "\<exists>stacked. stack_series rnd listing = Inr (stacked, last (series_slices listing)) \<and>
           elements stacked \<noteq> [] \<and> normalize_volume rnd stacked = Inr vol \<and>
           vol = map_array3 (normalize_value rnd (Min (set (elements stacked)))
                      (Max (set (elements stacked)))) stacked"
    and "spacing_of (last (series_slices listing)) = Inr sp"
proof -
  from assms show "l = [Info_loading directory]"
    by (simp add: load_dicom_series_def logged_def)
  from assms obtain stacked ds where s: "stack_series rnd listing = Inr (stacked, ds)"
    "normalize_volume rnd stacked = Inr vol" "spacing_of ds = Inr sp"
    by (auto simp: load_dicom_series_def logged_def split: sum.splits)
  have ds: "ds = last (series_slices listing)" by (rule stack_series_cases(4)[OF s(1)])
  from s(2) have "elements stacked \<noteq> []"
    "vol = map_array3 (normalize_value rnd (Min (set (elements stacked)))
                      (Max (set (elements stacked)))) stacked"
    by (auto simp: normalize_volume_cases split: if_splits)
  with s ds show "\<exists>stacked. stack_series rnd listing = Inr (stacked, last (series_slices listing)) \<and>
           elements stacked \<noteq> [] \<and> normalize_volume rnd stacked = Inr vol \<and>
           vol = map_array3 (normalize_value rnd (Min (set (elements stacked)))
                      (Max (set (elements stacked)))) stacked"
    by blast
  from s(3) ds show "spacing_of (last (series_slices listing)) = Inr sp" by simp
qed

lemma load_dicom_series_completes:
  assumes "dicom_series listing"
  shows "\<exists>vol sp. load_dicom_series rnd directory listing = ([Info_loading directory], Inr (vol, sp))"
proof -
  let ?dss = "series_slices listing"
  from assms have ss: "slice_series listing" and im: "\<forall>ds \<in> set ?dss. slice_image ds"
    by (simp_all add: dicom_series_def series_slices_facts)
  note f = slice_series_facts[OF ss]
  from stack_series_completes[OF ss, of rnd] obtain stacked ds where
    s: "stack_series rnd listing = Inr (stacked, ds)" by blast
  note c = stack_series_cases[OF s]
  from c(5) obtain r c where rc: "Rows (hd ?dss) = Some [r]" "Columns (hd ?dss) = Some [c]"
    "shape3 stacked = (r, c, length ?dss)" "well_shaped3 stacked"
    and pos: "0 < r" "0 < c" by blast
  have ne: "elements stacked \<noteq> []"
    using elements_nonempty[OF rc(4,3) pos] f(1) by simp
  have "slice_image ds" using c(4) im f(1) by simp
  from spacing_of_slice[OF this] obtain sp where sp: "spacing_of ds = Inr sp" by blast
  have "load_dicom_series rnd directory listing =
      ([Info_loading directory],
       Inr (map_array3 (normalize_value rnd (Min (set (elements stacked)))
              (Max (set (elements stacked)))) stacked, sp))"
    using s ne sp by (simp add: load_dicom_series_def logged_def normalize_volume_cases)
  then show ?thesis by blast
qed

section \<open>Rounding to float32\<close>

lemma exponent_up_bounds:
  "1 \<le> x \<Longrightarrow> 2 powi exponent_up x \<le> x \<and> x < 2 powi (exponent_up x + 1)"
proof (induction x rule: exponent_up.induct)
  case (1 x)
  show ?case
  proof (cases "2 \<le> x")
    case True
    hence e: "exponent_up x = exponent_up (x / 2) + 1" by (subst exponent_up.simps) simp
    from True have "1 \<le> x / 2" by simp
    from 1(1)[OF True this]
    have a: "2 powi exponent_up (x / 2) \<le> x / 2" and b: "x / 2 < 2 powi (exponent_up (x / 2) + 1)"
      by simp_all
    have p: "(2::rat) powi (n + 1) = 2 * 2 powi n" for n by (simp add: power_int_add)
    from a b show ?thesis unfolding e p by simp
  next
    case False
    hence "exponent_up x = 0" by (subst exponent_up.simps) simp
    with False 1(2) show ?thesis by simp
  qed
qed

lemma exponent_down_bounds:
  "0 < x \<Longrightarrow> x < 1 \<Longrightarrow> 2 powi exponent_down x \<le> x \<and> x < 2 powi (exponent_down x + 1)"
proof (induction x rule: exponent_down.induct)
  case (1 x)
  from 1(2,3) have e: "exponent_down x = exponent_down (2 * x) - 1"
    by (subst exponent_down.simps) simp
  have p: "(2::rat) powi (n + 1) = 2 * 2 powi n" for n by (simp add: power_int_add)
  have q: "(2::rat) powi (n - 1) = 2 powi n / 2" for n by (simp add: power_int_diff)
  show ?case
  proof (cases "2 * x < 1")
    case True
    from 1(1)[OF _ _ True] 1(2,3)
    have a: "2 powi exponent_down (2 * x) \<le> 2 * x"
      and b: "2 * x < 2 powi (exponent_down (2 * x) + 1)" by simp_all
    from a b show ?thesis unfolding e q by (simp add: p)
  next
    case False
    hence "exponent_down (2 * x) = 0" by (subst exponent_down.simps) simp
    with False 1(3) show ?thesis unfolding e by (simp add: power_int_minus)
  qed
qed

lemma exponent_bounds:
  assumes "0 < x"
  shows "2 powi exponent x \<le> x" and "x < 2 powi (exponent x + 1)"
  using assms exponent_up_bounds[of x] exponent_down_bounds[of x]
  by (auto simp: exponent_def not_le)

lemma exponent_mono:
  assumes "0 < x" and "x \<le> y"
  shows "exponent x \<le> exponent y"
proof -
  have "(2::rat) powi exponent x < 2 powi (exponent y + 1)"
    using exponent_bounds(1)[of x] exponent_bounds(2)[of y] assms by linarith
  moreover have "(2::rat) powi (exponent y + 1) \<le> 2 powi exponent x"
    if "exponent y + 1 \<le> exponent x"
    using that by (intro power_int_increasing) simp_all
  ultimately show ?thesis by fastforce
qed

lemma round_half_even_cases:
  "round_half_even z = \<lfloor>z\<rfloor> \<and> z - of_int \<lfloor>z\<rfloor> \<le> 1 / 2 \<or>
   round_half_even z = \<lfloor>z\<rfloor> + 1 \<and> 1 / 2 \<le> z - of_int \<lfloor>z\<rfloor>"
  by (auto simp: round_half_even_def Let_def)

lemma round_half_even_mono:
  assumes "z \<le> w"
  shows "round_half_even z \<le> round_half_even w"
proof (cases "\<lfloor>z\<rfloor> = \<lfloor>w\<rfloor>")
  case True
  with assms show ?thesis by (auto simp: round_half_even_def Let_def)
next
  case False
  with assms have "\<lfloor>z\<rfloor> < \<lfloor>w\<rfloor>" using floor_mono[OF assms] by simp
  moreover have "round_half_even z \<le> \<lfloor>z\<rfloor> + 1" using round_half_even_cases[of z] by auto
  moreover have "\<lfloor>w\<rfloor> \<le> round_half_even w" using round_half_even_cases[of w] by auto
  ultimately show ?thesis by simp
qed

lemma round_half_even_of_int [simp]: "round_half_even (of_int n) = n"
  by (simp add: round_half_even_def)

lemma significand_bounds:
  assumes "0 < x"
  shows "2 ^ 23 \<le> significand x" and "significand x \<le> 2 ^ 24"
proof -
  define u :: rat where "u = 2 powi (exponent x - 23)"
  have u: "0 < u" by (simp add: u_def)
  have lo: "2 powi exponent x = 2 ^ 23 * u" by (simp add: u_def power_int_diff)
  have hi: "2 powi (exponent x + 1) = 2 ^ 24 * u" by (simp add: u_def power_int_diff power_int_add)
  from exponent_bounds[OF assms] have "2 ^ 23 * u \<le> x" and "x < 2 ^ 24 * u"
    unfolding lo hi by simp_all
  with u have a: "of_int (2 ^ 23) \<le> x / u" and b: "x / u \<le> of_int (2 ^ 24)"
    by (simp_all add: pos_le_divide_eq pos_divide_le_eq)
  from round_half_even_mono[OF a] show "2 ^ 23 \<le> significand x"
    unfolding significand_def u_def round_half_even_of_int .
  from round_half_even_mono[OF b] show "significand x \<le> 2 ^ 24"
    unfolding significand_def u_def round_half_even_of_int .
qed

lemma float32_pos:
  "0 < x \<Longrightarrow> float32 x = of_int (significand x) * 2 powi (exponent x - 23)"
  by (simp add: float32_def significand_def Let_def)

lemma float32_neg: "float32 (- x) = - float32 x"
  by (simp add: float32_def Let_def)

lemma float32_pos_pos:
  assumes "0 < x"
  shows "0 < float32 x"
proof -
  have "(0::int) < 2 ^ 23" by simp
  with significand_bounds(1)[OF assms] have "0 < significand x" by linarith
  thus ?thesis by (simp add: float32_pos[OF assms])
qed

lemma float32_mono_pos:
  assumes x: "0 < x" and xy: "x \<le> y"
  shows "float32 x \<le> float32 y"
proof -
  from x xy have y: "0 < y" by simp
  define ux :: rat where "ux = 2 powi (exponent x - 23)"
  define uy :: rat where "uy = 2 powi (exponent y - 23)"
  have ux: "0 < ux" and uy: "0 < uy" by (simp_all add: ux_def uy_def)
  show ?thesis
  proof (cases "exponent x = exponent y")
    case True
    hence u: "ux = uy" by (simp add: ux_def uy_def)
    from xy uy have "x / uy \<le> y / uy" by (simp add: divide_right_mono)
    from round_half_even_mono[OF this] have "significand x \<le> significand y"
      unfolding significand_def uy_def True .
    hence "of_int (significand x) * uy \<le> of_int (significand y) * uy"
      using uy by simp
    thus ?thesis unfolding float32_pos[OF x] float32_pos[OF y] uy_def True .
  next
    case False
    with exponent_mono[OF x xy] have "exponent x + 1 \<le> exponent y" by simp
    hence "(2::rat) powi (exponent x + 1 - 23) \<le> 2 powi (exponent y - 23)"
      by (intro power_int_increasing) simp_all
    hence s: "2 * ux \<le> uy" by (simp add: ux_def uy_def power_int_diff power_int_add)
    have "of_int (significand x) * ux \<le> of_int (2 ^ 24) * ux"
      using significand_bounds(2)[OF x] ux by (intro mult_right_mono) (simp_all del: of_int_power of_int_numeral)
    also have "\<dots> = 2 ^ 23 * (2 * ux)" by simp
    also have "\<dots> \<le> 2 ^ 23 * uy" using s by simp
    also have "\<dots> = of_int (2 ^ 23) * uy" by simp
    also have "\<dots> \<le> of_int (significand y) * uy"
      using significand_bounds(1)[OF y] uy by (intro mult_right_mono) (simp_all del: of_int_power of_int_numeral)
    finally show ?thesis unfolding float32_pos[OF x] float32_pos[OF y] ux_def uy_def .
  qed
qed

lemma float32_0 [simp]: "float32 0 = 0"
  by (simp add: float32_def)

lemma float32_mono:
  assumes "x \<le> y"
  shows "float32 x \<le> float32 y"
proof -
  consider "0 < x" | "x = 0" "y = 0" | "x = 0" "0 < y" | "x < 0" "y < 0" | "x < 0" "y = 0" | "x < 0" "0 < y"
    using assms by linarith
  thus ?thesis
  proof cases
    case 1
    thus ?thesis using assms by (rule float32_mono_pos)
  next
    case 2
    thus ?thesis by simp
  next
    case 3
    thus ?thesis using float32_pos_pos[of y] by simp
  next
    case 4
    hence "float32 (- y) \<le> float32 (- x)" using assms by (intro float32_mono_pos) simp_all
    thus ?thesis by (simp add: float32_neg)
  next
    case 5
    thus ?thesis using float32_pos_pos[of "- x"] by (simp add: float32_neg)
  next
    case 6
    thus ?thesis using float32_pos_pos[of "- x"] float32_pos_pos[of y] by (simp add: float32_neg)
  qed
qed

lemma exponent_1: "exponent 1 = 0"
  by (simp add: exponent_def exponent_up.simps)

lemma float32_1: "float32 1 = 1"
proof -
  have "(1::rat) / 2 powi (- 23) = of_int (2 ^ 23)"
    by (simp add: power_int_minus)
  hence "significand 1 = 2 ^ 23"
    unfolding significand_def exponent_1 by (simp only: diff_0 round_half_even_of_int)
  thus ?thesis by (simp add: float32_pos exponent_1 power_int_minus)
qed

lemma rounding_float32: "rounding float32"
  unfolding rounding_def
proof (intro conjI allI impI)
  fix x y :: rat
  assume "float32 x < float32 y"
  hence "0 < float32 y - float32 x" by simp
  thus "0 < float32 (float32 y - float32 x)" by (rule float32_pos_pos)
qed (simp_all add: float32_1 float32_mono)

section \<open>What load_dicom_series returns\<close>

lemma example_series_ok: "dicom_series example_series"
  by code_simp

lemma example_load:
  "load_dicom_series (\<lambda>x. x) ''scan'' example_series =
     ([Info_loading ''scan''],
      Inr (\<lparr>shape3 = (1, 2, 2),
             cells = [[[Finite 0, Finite (1 / 4)], [Finite 1, Finite (1 / 2)]]]\<rparr>,
           (1 / 2, 1 / 4, Single 3)))"
  by code_simp

lemma example_stack:
  "stack_series (\<lambda>x. x) example_series =
     Inr (\<lparr>shape3 = (1, 2, 2), cells = [[[1, 3], [9, 5]]]\<rparr>, example_slice ''Ax T1'' 2 1 2 [3, 5] 3)"
  by code_simp

text \<open>
  C1, as stated, fails. A directory whose only \<^verbatim>\<open>.dcm\<close> file is not DICOM has a file
  whose name ends in \<^verbatim>\<open>.dcm\<close>, and \<^verbatim>\<open>load_dicom_series\<close> raises InvalidDicomError on it
  and builds no volume. In a directory of a slice of two rows and a slice of one row,
  both DICOM, the plane of the second slice is its one row twice, not its pixel array.
\<close>

theorem load_dicom_series_scan_sort_stack_counterexample:
  "dicom_entries example_invalid = [(''x.dcm'', OtherFile)] \<and>
   load_dicom_series (\<lambda>x. x) ''scan'' example_invalid =
     ([Info_loading ''scan''], Inl InvalidDicomError) \<and>
   stack_series (\<lambda>x. x) example_mixed =
     Inr (\<lparr>shape3 = (2, 2, 2), cells = [[[1, 7], [2, 8]], [[3, 7], [4, 8]]]\<rparr>,
          example_slice ''Ax T1'' 2 1 2 [7, 8] 2) \<and>
   pixel_array (example_slice ''Ax T1'' 2 1 2 [7, 8] 2) = Inr \<lparr>shape2 = (1, 2), rows2 = [[7, 8]]\<rparr> \<and>
   take_z \<lparr>shape3 = (2, 2, 2), cells = [[[1, 7], [2, 8]], [[3, 7], [4, 8 :: rat]]]\<rparr> 1 =
     Inr \<lparr>shape2 = (2, 2), rows2 = [[7, 8], [7, 8]]\<rparr>"
  by code_simp

text \<open>
  C1, amended. On a directory whose \<^verbatim>\<open>.dcm\<close> entries (names compared in any letter
  case), at least one, are all DICOM files with one InstanceNumber and pixel data of one
  shape, the stacking of lines 36 to 46 completes, and plane \<open>k\<close> of the stack is the
  pixel array, converted to float32, of the \<open>k\<close>-th file in ascending order of
  InstanceNumber. On every directory: the volume that \<^verbatim>\<open>load_dicom_series\<close> returns is the
  normalized stack. When the stacking completes, all \<^verbatim>\<open>.dcm\<close> entries are DICOM files with
  one InstanceNumber, the stack has one plane for each of them in ascending order of
  these numbers, and plane \<open>k\<close> is the pixel array of the \<open>k\<close>-th file broadcast to the
  rows and columns of the first file, which is the pixel array itself when the file has
  that shape. When a \<^verbatim>\<open>.dcm\<close> entry is not a DICOM file with one InstanceNumber, the
  function raises the exception that the sort key of the first such entry raises; when
  a file has no pixel array, the function raises as well.
\<close>

theorem load_dicom_series_scan_sort_stack:
  "(slice_series listing \<longrightarrow>
      (\<exists>stacked ds. stack_series rnd listing = Inr (stacked, ds) \<and>
         (\<forall>k < length (series_slices listing). \<exists>pixels.
            pixel_array (series_slices listing ! k) = Inr pixels \<and>
            take_z stacked (int k) = Inr (astype rnd pixels)))) \<and>
   (\<forall>l vol sp. load_dicom_series rnd directory listing = (l, Inr (vol, sp)) \<longrightarrow>
      (\<exists>stacked ds. stack_series rnd listing = Inr (stacked, ds) \<and>
         normalize_volume rnd stacked = Inr vol)) \<and>
   (\<forall>stacked ds. stack_series rnd listing = Inr (stacked, ds) \<longrightarrow>
      (\<forall>f \<in> set (dicom_entries listing). sortable (snd f)) \<and>
      map snd (dicom_entries listing) = map DicomFile (series_datasets listing) \<and>
      (\<forall>d \<in> set (series_slices listing). InstanceNumber d = Some [instance_number d]) \<and>
      mset (series_slices listing) = mset (series_datasets listing) \<and>
      sorted (map instance_number (series_slices listing)) \<and>
      (\<exists>r c. Rows (hd (series_slices listing)) = Some [r] \<and>
         Columns (hd (series_slices listing)) = Some [c] \<and>
         shape3 stacked = (r, c, length (series_slices listing)) \<and>
         (\<forall>k < length (series_slices listing). \<exists>pixels.
            pixel_array (series_slices listing ! k) = Inr pixels \<and>
            take_z stacked (int k) =
              Inr \<lparr>shape2 = (r, c), rows2 = broadcast_to r c (astype rnd pixels)\<rparr> \<and>
            (shape2 pixels = (r, c) \<longrightarrow> take_z stacked (int k) = Inr (astype rnd pixels))))) \<and>
   (\<forall>f. find (\<lambda>f. \<not> sortable (snd f)) (dicom_entries listing) = Some f \<longrightarrow>
      stack_series rnd listing = Inl (key_error (snd f)) \<and>
      load_dicom_series rnd directory listing =
        ([Info_loading directory], Inl (key_error (snd f)))) \<and>
   ((\<exists>d \<in> set (series_datasets listing). \<forall>pixels. pixel_array d \<noteq> Inr pixels) \<longrightarrow>
      (\<exists>e. stack_series rnd listing = Inl e \<and>
         load_dicom_series rnd directory listing = ([Info_loading directory], Inl e)))"
proof (intro conjI allI impI)
  assume ss: "slice_series listing"
  from stack_series_completes[OF ss, of rnd] obtain stacked ds where
    s: "stack_series rnd listing = Inr (stacked, ds)" by blast
  with slice_series_planes[OF ss s]
  show "\<exists>stacked ds. stack_series rnd listing = Inr (stacked, ds) \<and>
         (\<forall>k < length (series_slices listing). \<exists>pixels.
            pixel_array (series_slices listing ! k) = Inr pixels \<and>
            take_z stacked (int k) = Inr (astype rnd pixels))"
    by blast
next
  fix l vol sp
  assume "load_dicom_series rnd directory listing = (l, Inr (vol, sp))"
  from load_dicom_series_cases(2)[OF this]
  show "\<exists>stacked ds. stack_series rnd listing = Inr (stacked, ds) \<and>
         normalize_volume rnd stacked = Inr vol"
    by blast
next
  fix stacked ds
  assume s: "stack_series rnd listing = Inr (stacked, ds)"
  show "\<forall>f \<in> set (dicom_entries listing). sortable (snd f)"
    by (rule stack_series_cases(7)[OF s])
  show "map snd (dicom_entries listing) = map DicomFile (series_datasets listing)"
    by (rule stack_series_cases(2)[OF s])
  show "\<forall>d \<in> set (series_slices listing). InstanceNumber d = Some [instance_number d]"
  proof
    fix d
    assume "d \<in> set (series_slices listing)"
    with stack_series_cases(3)[OF s] obtain n where n: "the_one (InstanceNumber d) = Some n"
      by (auto simp: series_slices_facts)
    then have "InstanceNumber d = Some [n]" by (simp add: the_one_eq)
    with n show "InstanceNumber d = Some [instance_number d]"
      by (simp add: instance_number_def)
  qed
  show "mset (series_slices listing) = mset (series_datasets listing)"
    by (rule series_slices_facts(3))
  show "sorted (map instance_number (series_slices listing))"
    by (rule series_slices_facts(4))
  from stack_series_cases(5)[OF s] obtain r c where
    rc: "Rows (hd (series_slices listing)) = Some [r]" "Columns (hd (series_slices listing)) = Some [c]"
      "shape3 stacked = (r, c, length (series_slices listing))"
    and tz: "\<forall>k < length (series_slices listing). \<exists>a.
              pixel_array (series_slices listing ! k) = Inr a \<and>
              take_z stacked (int k) =
                Inr \<lparr>shape2 = (r, c), rows2 = broadcast_to r c (astype rnd a)\<rparr>"
    by blast
  have same: "\<lparr>shape2 = (r, c), rows2 = broadcast_to r c (astype rnd a)\<rparr> = astype rnd a"
    if "shape2 a = (r, c)" for a :: "int array2"
    using that by (simp add: broadcast_to_same astype_def)
  have "\<forall>k < length (series_slices listing). \<exists>pixels.
            pixel_array (series_slices listing ! k) = Inr pixels \<and>
            take_z stacked (int k) =
              Inr \<lparr>shape2 = (r, c), rows2 = broadcast_to r c (astype rnd pixels)\<rparr> \<and>
            (shape2 pixels = (r, c) \<longrightarrow> take_z stacked (int k) = Inr (astype rnd pixels))"
    using tz same by (metis (no_types, lifting))
  with rc show "\<exists>r c. Rows (hd (series_slices listing)) = Some [r] \<and>
         Columns (hd (series_slices listing)) = Some [c] \<and>
         shape3 stacked = (r, c, length (series_slices listing)) \<and>
         (\<forall>k < length (series_slices listing). \<exists>pixels.
            pixel_array (series_slices listing ! k) = Inr pixels \<and>
            take_z stacked (int k) =
              Inr \<lparr>shape2 = (r, c), rows2 = broadcast_to r c (astype rnd pixels)\<rparr> \<and>
            (shape2 pixels = (r, c) \<longrightarrow> take_z stacked (int k) = Inr (astype rnd pixels)))"
    by blast
next
  fix f
  assume f: "find (\<lambda>f. \<not> sortable (snd f)) (dicom_entries listing) = Some f"
  show "stack_series rnd listing = Inl (key_error (snd f))"
    by (rule stack_series_error[OF f])
  then show "load_dicom_series rnd directory listing =
        ([Info_loading directory], Inl (key_error (snd f)))"
    by (simp add: load_dicom_series_def logged_def)
next
  assume h: "\<exists>d \<in> set (series_datasets listing). \<forall>pixels. pixel_array d \<noteq> Inr pixels"
  have "\<exists>e. stack_series rnd listing = Inl e"
  proof (cases "stack_series rnd listing")
    case (Inr p)
    obtain stacked ds where p: "p = (stacked, ds)" by (cases p)
    from stack_series_cases(5)[OF Inr[unfolded p]]
    have "\<forall>k < length (series_slices listing). \<exists>a. pixel_array (series_slices listing ! k) = Inr a"
      by blast
    then have "\<forall>d \<in> set (series_slices listing). \<exists>a. pixel_array d = Inr a"
      by (metis in_set_conv_nth)
    with h show ?thesis by (auto simp: series_slices_facts)
  qed simp
  then obtain e where e: "stack_series rnd listing = Inl e" by blast
  then have "load_dicom_series rnd directory listing = ([Info_loading directory], Inl e)"
    by (simp add: load_dicom_series_def logged_def)
  with e show "\<exists>e. stack_series rnd listing = Inl e \<and>
         load_dicom_series rnd directory listing = ([Info_loading directory], Inl e)"
    by blast
qed

lemma example_series_slices: "slice_series example_series"
  using example_series_ok by (simp add: dicom_series_def)

lemma example_unnumbered_find:
  "find (\<lambda>f. \<not> sortable (snd f)) (dicom_entries example_unnumbered) =
     Some (''2.dcm'', DicomFile ((example_slice ''Ax T1'' 2 1 2 [1, 2] 2)\<lparr>InstanceNumber := None\<rparr>))"
  by code_simp

theorem load_dicom_series_scan_sort_stack_witness:
  "slice_series example_series \<and>
   stack_series (\<lambda>x. x) example_series =
     Inr (\<lparr>shape3 = (1, 2, 2), cells = [[[1, 3], [9, 5]]]\<rparr>, example_slice ''Ax T1'' 2 1 2 [3, 5] 3) \<and>
   (\<exists>stacked ds. stack_series (\<lambda>x. x) example_series = Inr (stacked, ds) \<and>
      (\<forall>k < length (series_slices example_series). \<exists>pixels.
         pixel_array (series_slices example_series ! k) = Inr pixels \<and>
         take_z stacked (int k) = Inr (astype (\<lambda>x. x) pixels))) \<and>
   (\<exists>stacked ds. stack_series (\<lambda>x. x) example_series = Inr (stacked, ds) \<and>
      normalize_volume (\<lambda>x. x) stacked =
        Inr \<lparr>shape3 = (1, 2, 2),
             cells = [[[Finite 0, Finite (1 / 4)], [Finite 1, Finite (1 / 2)]]]\<rparr>) \<and>
   mset (series_slices example_series) = mset (series_datasets example_series) \<and>
   sorted (map instance_number (series_slices example_series)) \<and>
   map InstanceNumber (series_slices example_series) = [Some [1], Some [2]] \<and>
   map PixelData (series_slices example_series) = [Some [1, 9], Some [3, 5]] \<and>
   find (\<lambda>f. \<not> sortable (snd f)) (dicom_entries example_unnumbered) =
     Some (''2.dcm'', DicomFile ((example_slice ''Ax T1'' 2 1 2 [1, 2] 2)\<lparr>InstanceNumber := None\<rparr>)) \<and>
   load_dicom_series (\<lambda>x. x) ''scan'' example_unnumbered =
     ([Info_loading ''scan''], Inl AttributeError)"
proof -
  note t = load_dicom_series_scan_sort_stack[of example_series "\<lambda>x. x" "''scan''"]
  from t example_load
  have n: "\<exists>stacked ds. stack_series (\<lambda>x. x) example_series = Inr (stacked, ds) \<and>
      normalize_volume (\<lambda>x. x) stacked =
        Inr \<lparr>shape3 = (1, 2, 2),
             cells = [[[Finite 0, Finite (1 / 4)], [Finite 1, Finite (1 / 2)]]]\<rparr>"
    by blast
  from t example_series_slices
  have a: "\<exists>stacked ds. stack_series (\<lambda>x. x) example_series = Inr (stacked, ds) \<and>
      (\<forall>k < length (series_slices example_series). \<exists>pixels.
         pixel_array (series_slices example_series ! k) = Inr pixels \<and>
         take_z stacked (int k) = Inr (astype (\<lambda>x. x) pixels))"
    by blast
  from t example_stack
  have b: "mset (series_slices example_series) = mset (series_datasets example_series)"
    "sorted (map instance_number (series_slices example_series))"
    by blast+
  have c: "map InstanceNumber (series_slices example_series) = [Some [1], Some [2]]"
    "map PixelData (series_slices example_series) = [Some [1, 9], Some [3, 5]]"
    by code_simp+
  from load_dicom_series_scan_sort_stack[of example_unnumbered "\<lambda>x. x" "''scan''"]
    example_unnumbered_find
  have "load_dicom_series (\<lambda>x. x) ''scan'' example_unnumbered =
     ([Info_loading ''scan''],
      Inl (key_error (snd (''2.dcm'', DicomFile ((example_slice ''Ax T1'' 2 1 2 [1, 2] 2)\<lparr>InstanceNumber := None\<rparr>)))))"
    by blast
  then have d: "load_dicom_series (\<lambda>x. x) ''scan'' example_unnumbered =
     ([Info_loading ''scan''], Inl AttributeError)"
    by simp
  show ?thesis
    by (intro conjI example_series_slices example_stack a n b c example_unnumbered_find d)
qed

text \<open>
  C5, as stated, fails. A directory of two slice images, each with one InstanceNumber,
  its pixel data, a PixelSpacing and a SliceThickness, the first in sorted order of one
  row and the second of two rows: the volume gets the shape of the first, the array of
  the second cannot be broadcast to a plane of it, and \<^verbatim>\<open>load_dicom_series\<close> raises
  ValueError at line 46 instead of returning a volume.
\<close>

theorem load_dicom_series_shape_counterexample:
  "dicom_entries example_grow = example_grow \<and>
   map snd example_grow = map DicomFile (series_slices example_grow) \<and>
   map slice_image (series_slices example_grow) = [True, True] \<and>
   map Rows (series_slices example_grow) = [Some [1], Some [2]] \<and>
   load_dicom_series (\<lambda>x. x) ''scan'' example_grow = ([Info_loading ''scan''], Inl ValueError)"
  by code_simp



text \<open>
  C7. Whenever \<^verbatim>\<open>load_dicom_series\<close> returns, which it does on a directory of slice
  images of one shape, the second component of its result is the triple
  \<open>(PixelSpacing[0], PixelSpacing[1], SliceThickness)\<close> of one file: the last in sorted
  InstanceNumber order. The third component is the value of the element as pydicom
  hands it out: the number, when the element has one value.
\<close>

theorem load_dicom_series_spacing:
  "(dicom_series listing \<longrightarrow>
      (\<exists>vol sp. load_dicom_series rnd directory listing = ([Info_loading directory], Inr (vol, sp)))) \<and>
   (\<forall>l vol sp. load_dicom_series rnd directory listing = (l, Inr (vol, sp)) \<longrightarrow>
      series_slices listing \<noteq> [] \<and>
      (\<exists>ps ts. PixelSpacing (last (series_slices listing)) = Some ps \<and> 2 \<le> length ps \<and>
         SliceThickness (last (series_slices listing)) = Some ts \<and>
         sp = (ps ! 0, ps ! 1, element_value ts) \<and>
         (\<forall>t. ts = [t] \<longrightarrow> sp = (ps ! 0, ps ! 1, Single t))))"
proof (intro conjI allI impI)
  assume "dicom_series listing"
  then show "\<exists>vol sp. load_dicom_series rnd directory listing = ([Info_loading directory], Inr (vol, sp))"
    by (rule load_dicom_series_completes)
next
  fix l vol sp
  assume ld: "load_dicom_series rnd directory listing = (l, Inr (vol, sp))"
  from load_dicom_series_cases(2)[OF ld] obtain stacked where
    s: "stack_series rnd listing = Inr (stacked, last (series_slices listing))" by blast
  note c = stack_series_cases[OF s]
  show "series_slices listing \<noteq> []"
    using c(1,2) series_slices_facts(1)[of listing] by (metis length_0_conv length_map)
  from spacing_of_cases[OF load_dicom_series_cases(3)[OF ld]] obtain ps ts where
    p: "PixelSpacing (last (series_slices listing)) = Some ps" "2 \<le> length ps"
      "SliceThickness (last (series_slices listing)) = Some ts"
      "sp = (ps ! 0, ps ! 1, element_value ts)"
    by blast
  then have "\<forall>t. ts = [t] \<longrightarrow> sp = (ps ! 0, ps ! 1, Single t)"
    by (simp add: element_value_def)
  with p show "\<exists>ps ts. PixelSpacing (last (series_slices listing)) = Some ps \<and> 2 \<le> length ps \<and>
         SliceThickness (last (series_slices listing)) = Some ts \<and>
         sp = (ps ! 0, ps ! 1, element_value ts) \<and>
         (\<forall>t. ts = [t] \<longrightarrow> sp = (ps ! 0, ps ! 1, Single t))"
    by blast
qed

theorem load_dicom_series_spacing_witness:
  "dicom_series example_series \<and>
   (\<exists>vol sp. load_dicom_series (\<lambda>x. x) ''scan'' example_series = ([Info_loading ''scan''], Inr (vol, sp))) \<and>
   load_dicom_series (\<lambda>x. x) ''scan'' example_series =
     ([Info_loading ''scan''],
      Inr (\<lparr>shape3 = (1, 2, 2),
             cells = [[[Finite 0, Finite (1 / 4)], [Finite 1, Finite (1 / 2)]]]\<rparr>,
           (1 / 2, 1 / 4, Single 3))) \<and>
   (\<exists>ps ts. PixelSpacing (last (series_slices example_series)) = Some ps \<and> 2 \<le> length ps \<and>
      SliceThickness (last (series_slices example_series)) = Some ts \<and>
      (1 / 2, 1 / 4, Single 3) = (ps ! 0, ps ! 1, element_value ts)) \<and>
   map SliceThickness (series_slices example_series) = [Some [2], Some [3]]"
proof -
  note t = load_dicom_series_spacing[of example_series "\<lambda>x. x" "''scan''"]
  from t example_series_ok
  have r: "\<exists>vol sp. load_dicom_series (\<lambda>x. x) ''scan'' example_series = ([Info_loading ''scan''], Inr (vol, sp))"
    by blast
  from t example_load
  have a: "\<exists>ps ts. PixelSpacing (last (series_slices example_series)) = Some ps \<and> 2 \<le> length ps \<and>
      SliceThickness (last (series_slices example_series)) = Some ts \<and>
      (1 / 2, 1 / 4, Single 3) = (ps ! 0, ps ! 1, element_value ts)"
    by blast
  have e: "map SliceThickness (series_slices example_series) = [Some [2], Some [3]]"
    by code_simp
  show ?thesis
    by (intro conjI example_series_ok r example_load a e)
qed

lemma no_dicom_entries:
  assumes "\<forall>f \<in> set listing. \<not> endswith (lower (fst f)) ''.dcm''"
  shows "dicom_entries listing = []"
  using assms by (simp add: dicom_entries_def)

text \<open>
  C9. When no entry of the directory has a name that ends in \<^verbatim>\<open>.dcm\<close> (in any letter
  case, as line 36 compares), \<^verbatim>\<open>load_dicom_series\<close> raises IndexError at
  \<^verbatim>\<open>dicom_files[0]\<close>, and \<^verbatim>\<open>create_mri_visualization\<close> logs the failure and raises
  the same exception instead of returning a panel.
\<close>

theorem no_dicom_files_fail:
  assumes "\<forall>f \<in> set listing. \<not> endswith (lower (fst f)) ''.dcm''"
  shows "load_dicom_series rnd directory listing = ([Info_loading directory], Inl IndexError) \<and>
    create_mri_visualization rnd directory listing =
      ([Info_loading directory, Error_failed IndexError], Inl IndexError)"
proof -
  have "stack_series rnd listing = Inl IndexError"
    by (simp add: stack_series_def sort_by_instance_def no_dicom_entries[OF assms])
  then have l: "load_dicom_series rnd directory listing = ([Info_loading directory], Inl IndexError)"
    by (simp add: load_dicom_series_def logged_def)
  then show ?thesis
    by (simp add: create_mri_visualization_def MRIVisualization_init_def)
qed

theorem no_dicom_files_fail_witness:
  "dicom_entries [(''notes.txt'', OtherFile), (''sub'', Directory [])] = [] \<and>
   load_dicom_series (\<lambda>x. x) ''scan'' [(''notes.txt'', OtherFile), (''sub'', Directory [])] =
     ([Info_loading ''scan''], Inl IndexError) \<and>
   create_mri_visualization (\<lambda>x. x) ''scan'' [(''notes.txt'', OtherFile), (''sub'', Directory [])] =
     ([Info_loading ''scan'', Error_failed IndexError], Inl IndexError)"
proof -
  have h: "\<forall>f \<in> set [(''notes.txt'', OtherFile), (''sub'', Directory [])]. \<not> endswith (lower (fst f)) ''.dcm''"
    by code_simp
  have e: "dicom_entries [(''notes.txt'', OtherFile), (''sub'', Directory [])] = []"
    by (rule no_dicom_entries[OF h])
  show ?thesis
    using e no_dicom_files_fail[OF h, of "\<lambda>x. x" "''scan''"] by (intro conjI) simp_all
qed

section \<open>Normalization\<close>

lemma rounding_id: "rounding (\<lambda>x. x)"
  by (simp add: rounding_def)

lemma example_load_float32:
  "load_dicom_series float32 ''scan'' example_series =
     ([Info_loading ''scan''],
      Inr (\<lparr>shape3 = (1, 2, 2),
             cells = [[[Finite 0, Finite (1 / 4)], [Finite 1, Finite (1 / 2)]]]\<rparr>,
           (1 / 2, 1 / 4, Single 3)))"
  by code_simp

lemma example_thirds_load:
  "load_dicom_series float32 ''scan'' example_thirds =
     ([Info_loading ''scan''],
      Inr (\<lparr>shape3 = (1, 3, 1),
             cells = [[[Finite 0], [Finite (11184811 / 33554432)], [Finite 1]]]\<rparr>,
           (1 / 2, 1 / 4, Single 1)))"
  by code_simp

lemma normalize_value_range:
  assumes r: "rounding rnd" and lo: "lo \<le> x" and hi: "x \<le> hi" and d: "0 < rnd (hi - lo)"
  shows "\<exists>q. normalize_value rnd lo hi x = Finite q \<and> q = rnd (rnd (x - lo) / rnd (hi - lo)) \<and>
           0 \<le> q \<and> q \<le> 1"
proof -
  from r have mono: "\<And>a b. a \<le> b \<Longrightarrow> rnd a \<le> rnd b" and r0: "rnd 0 = 0" and r1: "rnd 1 = 1"
    by (auto simp: rounding_def)
  have n0: "0 \<le> rnd (x - lo)" using mono[of 0 "x - lo"] lo r0 by simp
  have n1: "rnd (x - lo) \<le> rnd (hi - lo)" using mono[of "x - lo" "hi - lo"] hi by simp
  have q0: "0 \<le> rnd (x - lo) / rnd (hi - lo)" using n0 d by simp
  have q1: "rnd (x - lo) / rnd (hi - lo) \<le> 1" using n1 d by simp
  have "0 \<le> rnd (rnd (x - lo) / rnd (hi - lo))" using mono[OF q0] r0 by simp
  moreover have "rnd (rnd (x - lo) / rnd (hi - lo)) \<le> 1" using mono[OF q1] r1 by simp
  ultimately show ?thesis using d by (simp add: normalize_value_def fdiv_def)
qed

lemma normalize_value_ends:
  assumes r: "rounding rnd" and d: "0 < rnd (hi - lo)"
  shows "normalize_value rnd lo hi lo = Finite 0" "normalize_value rnd lo hi hi = Finite 1"
  using assms by (simp_all add: normalize_value_def fdiv_def rounding_def)

lemma normalize_value_constant:
  assumes "rounding rnd"
  shows "normalize_value rnd lo lo lo = NaN"
  using assms by (simp add: normalize_value_def fdiv_def rounding_def)

text \<open>
  C6. After \<^verbatim>\<open>load_dicom_series\<close> has returned, let \<open>lo\<close> and \<open>hi\<close> be the least and the
  greatest element of the stacked volume. The returned volume is the stack mapped by
  \<open>x \<mapsto> (x - lo) / (hi - lo)\<close>, each operation rounded to float32. When \<open>lo < hi\<close>,
  every element of it is a finite number in \<open>[0, 1]\<close>, the least element is mapped to 0
  and the greatest to 1. When all elements are equal, the division is \<open>0 / 0\<close> and every
  element of the result is NaN.
\<close>

theorem load_dicom_series_normalized:
  assumes "load_dicom_series rnd directory listing = (l, Inr (vol, sp))" and "rounding rnd"
  shows "\<exists>stacked ds lo hi.
      stack_series rnd listing = Inr (stacked, ds) \<and> elements stacked \<noteq> [] \<and>
      lo = Min (set (elements stacked)) \<and> hi = Max (set (elements stacked)) \<and>
      vol = map_array3 (normalize_value rnd lo hi) stacked \<and>
      (lo < hi \<longrightarrow>
         (\<forall>x \<in> set (elements stacked). \<exists>q.
            normalize_value rnd lo hi x = Finite q \<and>
            q = rnd (rnd (x - lo) / rnd (hi - lo)) \<and> 0 \<le> q \<and> q \<le> 1) \<and>
         (\<forall>v \<in> set (elements vol). \<exists>q. v = Finite q \<and> 0 \<le> q \<and> q \<le> 1) \<and>
         normalize_value rnd lo hi lo = Finite 0 \<and> normalize_value rnd lo hi hi = Finite 1 \<and>
         Finite 0 \<in> set (elements vol) \<and> Finite 1 \<in> set (elements vol)) \<and>
      (lo = hi \<longrightarrow> (\<forall>v \<in> set (elements vol). v = NaN))"
proof -
  from load_dicom_series_cases(2)[OF assms(1)] obtain stacked where s:
    "stack_series rnd listing = Inr (stacked, last (series_slices listing))"
    "elements stacked \<noteq> []"
    "vol = map_array3 (normalize_value rnd (Min (set (elements stacked)))
             (Max (set (elements stacked)))) stacked"
    by blast
  let ?E = "set (elements stacked)"
  let ?lo = "Min ?E" and ?hi = "Max ?E"
  have r0: "rnd 0 = 0" using assms(2) by (simp add: rounding_def)
  have rounded: "\<exists>i :: int. x = rnd (of_int i)" if "x \<in> ?E" for x
  proof -
    from stack_series_cases(6)[OF s(1)] that have "x = 0 \<or> (\<exists>i :: int. x = rnd (of_int i))"
      by blast
    then show ?thesis
    proof
      assume "x = 0"
      then have "x = rnd (of_int 0)" using r0 by simp
      then show ?thesis ..
    qed
  qed
  have fin: "finite ?E" "?E \<noteq> {}" using s(2) by simp_all
  have lo_in: "?lo \<in> ?E" and hi_in: "?hi \<in> ?E"
    using fin by (simp_all add: Min_in Max_in del: set_empty)
  have bounds: "?lo \<le> x \<and> x \<le> ?hi" if "x \<in> ?E" for x
    using that fin by simp
  have ev: "set (elements vol) = normalize_value rnd ?lo ?hi ` ?E"
    by (simp add: s(3) elements_map)
  have strict: ?thesis if lt: "?lo < ?hi"
  proof -
    from rounded[OF lo_in] obtain a :: int where a: "?lo = rnd (of_int a)" by blast
    from rounded[OF hi_in] obtain b :: int where b: "?hi = rnd (of_int b)" by blast
    from assms(2) have "\<And>x y. rnd x < rnd y \<Longrightarrow> 0 < rnd (rnd y - rnd x)"
      by (simp add: rounding_def)
    from this[of "of_int a" "of_int b"] lt a b have d: "0 < rnd (?hi - ?lo)"
      by simp
    have rng: "\<forall>x \<in> ?E. \<exists>q. normalize_value rnd ?lo ?hi x = Finite q \<and>
            q = rnd (rnd (x - ?lo) / rnd (?hi - ?lo)) \<and> 0 \<le> q \<and> q \<le> 1"
      using normalize_value_range[OF assms(2) _ _ d] bounds by blast
    then have vol: "\<forall>v \<in> set (elements vol). \<exists>q. v = Finite q \<and> 0 \<le> q \<and> q \<le> 1"
      unfolding ev by blast
    note ends = normalize_value_ends[OF assms(2) d]
    have in0: "Finite 0 \<in> set (elements vol)"
      unfolding ev using lo_in ends(1) by (metis image_eqI)
    have in1: "Finite 1 \<in> set (elements vol)"
      unfolding ev using hi_in ends(2) by (metis image_eqI)
    show ?thesis
      using s lt rng vol ends in0 in1
      by (intro exI[of _ stacked] exI[of _ "last (series_slices listing)"]
          exI[of _ ?lo] exI[of _ ?hi]) simp
  qed
  have const: ?thesis if eq: "?lo = ?hi"
  proof -
    have "x = ?lo" if "x \<in> ?E" for x
      using bounds[OF that] eq by simp
    then have "\<forall>v \<in> set (elements vol). v = NaN"
      unfolding ev using eq normalize_value_constant[OF assms(2), of ?lo] by auto
    then show ?thesis
      using s eq
      by (intro exI[of _ stacked] exI[of _ "last (series_slices listing)"]
          exI[of _ ?lo] exI[of _ ?hi]) simp
  qed
  have "?lo \<le> ?hi" using bounds[OF lo_in] by simp
  then show ?thesis using strict const by (cases "?lo < ?hi") auto
qed

theorem load_dicom_series_normalized_witness:
  "load_dicom_series float32 ''scan'' example_series =
     ([Info_loading ''scan''],
      Inr (\<lparr>shape3 = (1, 2, 2),
             cells = [[[Finite 0, Finite (1 / 4)], [Finite 1, Finite (1 / 2)]]]\<rparr>,
           (1 / 2, 1 / 4, Single 3))) \<and>
   rounding float32 \<and>
   (\<exists>stacked ds lo hi.
      stack_series float32 example_series = Inr (stacked, ds) \<and> elements stacked \<noteq> [] \<and>
      lo = Min (set (elements stacked)) \<and> hi = Max (set (elements stacked)) \<and>
      \<lparr>shape3 = (1, 2, 2), cells = [[[Finite 0, Finite (1 / 4)], [Finite 1, Finite (1 / 2)]]]\<rparr> =
        map_array3 (normalize_value float32 lo hi) stacked \<and>
      (lo < hi \<longrightarrow>
         (\<forall>x \<in> set (elements stacked). \<exists>q.
            normalize_value float32 lo hi x = Finite q \<and>
            q = float32 (float32 (x - lo) / float32 (hi - lo)) \<and> 0 \<le> q \<and> q \<le> 1) \<and>
         (\<forall>v \<in> set (elements \<lparr>shape3 = (1, 2, 2),
               cells = [[[Finite 0, Finite (1 / 4)], [Finite 1, Finite (1 / 2)]]]\<rparr>).
            \<exists>q. v = Finite q \<and> 0 \<le> q \<and> q \<le> 1) \<and>
         normalize_value float32 lo hi lo = Finite 0 \<and>
         normalize_value float32 lo hi hi = Finite 1 \<and>
         Finite 0 \<in> set (elements \<lparr>shape3 = (1, 2, 2),
               cells = [[[Finite 0, Finite (1 / 4)], [Finite 1, Finite (1 / 2)]]]\<rparr>) \<and>
         Finite 1 \<in> set (elements \<lparr>shape3 = (1, 2, 2),
               cells = [[[Finite 0, Finite (1 / 4)], [Finite 1, Finite (1 / 2)]]]\<rparr>)) \<and>
      (lo = hi \<longrightarrow>
         (\<forall>v \<in> set (elements \<lparr>shape3 = (1, 2, 2),
               cells = [[[Finite 0, Finite (1 / 4)], [Finite 1, Finite (1 / 2)]]]\<rparr>).
            v = NaN))) \<and>
   load_dicom_series float32 ''scan'' example_constant =
     ([Info_loading ''scan''],
      Inr (\<lparr>shape3 = (1, 2, 1), cells = [[[NaN], [NaN]]]\<rparr>, (1 / 2, 1 / 4, Single 1))) \<and>
   load_dicom_series float32 ''scan'' example_thirds =
     ([Info_loading ''scan''],
      Inr (\<lparr>shape3 = (1, 3, 1),
             cells = [[[Finite 0], [Finite (11184811 / 33554432)], [Finite 1]]]\<rparr>,
           (1 / 2, 1 / 4, Single 1)))"
proof -
  have c: "load_dicom_series float32 ''scan'' example_constant =
     ([Info_loading ''scan''],
      Inr (\<lparr>shape3 = (1, 2, 1), cells = [[[NaN], [NaN]]]\<rparr>, (1 / 2, 1 / 4, Single 1)))"
    by code_simp
  show ?thesis
    by (intro conjI example_load_float32 rounding_float32 c example_thirds_load
        load_dicom_series_normalized[OF example_load_float32 rounding_float32])
qed

section \<open>What view reads\<close>

lemma handle_event_frame:
  "slice_index_bounds (handle_event self ev) = slice_index_bounds self"
  "volume (handle_event self ev) = volume self"
  "spacing (handle_event self ev) = spacing self"
  by (auto simp: handle_event_def set_slice_index_def set_view_axis_def split: ui_event.splits)

lemma foldl_handle_event_frame:
  "slice_index_bounds (foldl handle_event self evs) = slice_index_bounds self"
  "volume (foldl handle_event self evs) = volume self"
  by (induction evs arbitrary: self) (simp_all add: handle_event_frame)

lemma handle_event_sets:
  "handle_event self (Set_slice_index i) =
     (if fst (slice_index_bounds self) \<le> i \<and> i \<le> snd (slice_index_bounds self)
      then self\<lparr>slice_index := i\<rparr> else self)"
  "handle_event self (Set_view_axis a) =
     (if a = ''x'' \<or> a = ''y'' \<or> a = ''z'' then self\<lparr>view_axis := a\<rparr> else self)"
  by (auto simp: handle_event_def set_slice_index_def set_view_axis_def)

lemma handle_event_changes:
  "handle_event self ev \<noteq> self \<longleftrightarrow>
     slice_index (handle_event self ev) \<noteq> slice_index self \<or>
     view_axis (handle_event self ev) \<noteq> view_axis self"
proof (cases ev)
  case (Set_slice_index i)
  have "self\<lparr>slice_index := i\<rparr> = self \<longleftrightarrow> i = slice_index self" by (cases self) simp
  then show ?thesis unfolding Set_slice_index handle_event_sets by simp
next
  case (Set_view_axis a)
  have "self\<lparr>view_axis := a\<rparr> = self \<longleftrightarrow> a = view_axis self" by (cases self) simp
  then show ?thesis unfolding Set_view_axis handle_event_sets by simp
qed

lemma slice_data_reads:
  assumes "slice_index a = slice_index b" "view_axis a = view_axis b" "volume a = volume b"
  shows "slice_data a = slice_data b"
  using assms by (simp add: slice_data_def)

subsection \<open>The figure of one call\<close>

lemma fold_max_ge: "a \<le> fold max xs (a::nat)"
proof (induction xs arbitrary: a)
  case Nil
  show ?case by simp
next
  case (Cons x xs)
  have "a \<le> max x a" by simp
  also have "max x a \<le> fold max xs (max x a)" by (rule Cons.IH)
  finally show ?case by simp
qed

lemma fold_max_mem: "x \<in> set xs \<Longrightarrow> x \<le> fold max xs (a::nat)"
proof (induction xs arbitrary: a)
  case Nil
  then show ?case by simp
next
  case (Cons y ys)
  show ?case
  proof (cases "x = y")
    case True
    have "x \<le> max y a" using True by simp
    also have "max y a \<le> fold max ys (max y a)" by (rule fold_max_ge)
    finally show ?thesis by simp
  next
    case False
    with Cons.prems have "x \<in> set ys" by simp
    from Cons.IH[OF this] show ?thesis by simp
  qed
qed

lemma next_num_fresh: "x \<in> set plt \<Longrightarrow> fst x \<noteq> next_num plt"
proof -
  assume "x \<in> set plt"
  then have "fst x \<in> set (map fst plt)" by simp
  from fold_max_mem[OF this, of 0] show ?thesis by (simp add: next_num_def)
qed

lemma update_figure_fresh:
  assumes "\<And>x. x \<in> set plt \<Longrightarrow> fst x \<noteq> num"
  shows "update_figure num f (plt @ [(num, fig)]) = plt @ [(num, f fig)]"
proof -
  have "map (\<lambda>x. if fst x = num then (fst x, f (snd x)) else x) plt = map (\<lambda>x. x) plt"
    by (rule map_cong) (simp_all add: assms)
  then show ?thesis by (simp add: update_figure_def)
qed

lemma close_fresh:
  assumes "\<And>x. x \<in> set plt \<Longrightarrow> fst x \<noteq> num"
  shows "close num (plt @ [(num, fig)]) = plt"
proof -
  have "filter (\<lambda>x. fst x \<noteq> num) plt = plt"
    by (rule filter_True) (simp add: assms)
  then show ?thesis by (simp add: close_def)
qed

lemma gcf_snoc: "gcf (plt @ [(num, fig)]) = (num, plt @ [(num, fig)])"
  by (simp add: gcf_def)

lemma view_draws:
  "view self plt =
     (case slice_data self of
        Inl e \<Rightarrow> (Inl e, plt @ [(next_num plt, blank_figure (8, 8))])
      | Inr data \<Rightarrow>
          (Inr (PNG \<lparr>figsize = (8, 8), images = [(data, ''gray'')], axis_on = False,
                     tight = True\<rparr> 400 400), plt))"
proof (cases "slice_data self")
  case (Inl e)
  then show ?thesis by (simp add: view_def subplots_def)
next
  case (Inr data)
  note fresh = next_num_fresh[of _ plt]
  show ?thesis
    unfolding view_def subplots_def Inr
    by (simp add: imshow_def axis_off_def tight_layout_def savefig_def gcf_snoc
        update_figure_fresh[OF fresh] close_fresh[OF fresh] blank_figure_def)
qed

lemma view_reads:
  assumes "slice_index a = slice_index b" "view_axis a = view_axis b" "volume a = volume b"
  shows "fst (view a p) = fst (view b q)"
  unfolding view_draws slice_data_reads[OF assms] by (simp split: sum.splits)

subsection \<open>The panel\<close>

lemma panel_layout:
  "widgets (panel self) = [''slice_index'', ''view_axis'']"
  "watched (panel self) = [''slice_index'', ''view_axis'']"
  "method_count (panel self) = 1"
  by (simp_all add: panel_def view_depends_def)

lemma redraw_eq:
  "redraw self plt =
     \<lparr>mri_vis = self, figures = snd (view self plt), shown = Some (fst (view self plt))\<rparr>"
  by (simp add: redraw_def case_prod_beta)

lemma show_panel_panel:
  "mri_vis (show_panel (panel self) self p) = self"
  "shown (show_panel (panel self) self p) = Some (fst (view self p))"
  by (simp_all add: show_panel_def panel_layout redraw_eq)

lemma panel_step_panel:
  "panel_step (panel self) s ev =
     (if handle_event (mri_vis s) ev \<noteq> mri_vis s
      then redraw (handle_event (mri_vis s) ev) (figures s) else s)"
proof -
  have w: "event_parameter ev \<in> set (widgets (panel self))"
    by (cases ev) (simp_all add: panel_layout)
  have c: "(\<exists>name \<in> set (watched (panel self)). changed (mri_vis s) (handle_event (mri_vis s) ev) name)
      \<longleftrightarrow> handle_event (mri_vis s) ev \<noteq> mri_vis s"
    unfolding handle_event_changes[of "mri_vis s" ev] by (auto simp: panel_layout changed_def)
  show ?thesis
    unfolding panel_step_def Let_def using w c by simp
qed

lemma panel_step_sync:
  assumes "shown s = Some (fst (view (mri_vis s) p))"
  shows "mri_vis (panel_step (panel self) s ev) = handle_event (mri_vis s) ev"
    and "shown (panel_step (panel self) s ev) =
      Some (fst (view (mri_vis (panel_step (panel self) s ev)) p))"
proof -
  show m: "mri_vis (panel_step (panel self) s ev) = handle_event (mri_vis s) ev"
    by (simp add: panel_step_panel redraw_eq)
  show "shown (panel_step (panel self) s ev) =
      Some (fst (view (mri_vis (panel_step (panel self) s ev)) p))"
    unfolding m
  proof (cases "handle_event (mri_vis s) ev \<noteq> mri_vis s")
    case True
    have "fst (view (handle_event (mri_vis s) ev) (figures s)) = fst (view (handle_event (mri_vis s) ev) p)"
      by (rule view_reads) simp_all
    with True show "shown (panel_step (panel self) s ev) = Some (fst (view (handle_event (mri_vis s) ev) p))"
      by (simp add: panel_step_panel redraw_eq)
  next
    case False
    with assms show "shown (panel_step (panel self) s ev) = Some (fst (view (handle_event (mri_vis s) ev) p))"
      by (simp add: panel_step_panel)
  qed
qed

lemma panel_run_sync:
  assumes "shown s = Some (fst (view (mri_vis s) p))"
  shows "mri_vis (foldl (panel_step (panel self)) s evs) = foldl handle_event (mri_vis s) evs \<and>
     shown (foldl (panel_step (panel self)) s evs) =
       Some (fst (view (foldl handle_event (mri_vis s) evs) p))"
  using assms
proof (induction evs arbitrary: s)
  case Nil
  then show ?case by simp
next
  case (Cons ev evs)
  from Cons.IH[OF panel_step_sync(2)[OF Cons.prems]] show ?case
    by (simp add: panel_step_sync(1)[OF Cons.prems])
qed

lemma view_reads_slice_index:
  "fst (view (example_vis\<lparr>slice_index := 1\<rparr>) []) \<noteq> fst (view example_vis [])"
  by code_simp

lemma view_reads_view_axis:
  "fst (view (example_vis\<lparr>view_axis := ''y''\<rparr>) []) \<noteq> fst (view example_vis [])"
  by code_simp

text \<open>
  C8. \<^verbatim>\<open>view\<close> reads \<^verbatim>\<open>slice_index\<close>, \<^verbatim>\<open>view_axis\<close> and the volume, and nothing else.
  Two instances that agree on these three select the same slice, and in any two states
  of pyplot, whatever figures are open there, \<^verbatim>\<open>view\<close> returns the same for them: the
  error of the indexing, or a pane of 400 by 400 with a figure of 8 by 8 inches that
  shows the selected slice alone, in gray, without axes, in the tight layout. A call that
  returns leaves pyplot as it found it; a call that raises leaves its new figure open.
  Both parameters are read: changing either one can change what is returned.

  The layout of \<^verbatim>\<open>panel\<close> holds a widget for each of the two parameters and the method
  \<^verbatim>\<open>view\<close> once, with the dependencies of line 65. A widget sets its parameter to a
  value that the parameter accepts and to no other, and no event changes the volume. So
  from the moment the panel is shown and after any sequence of events, the instance is
  the one that the events have made and the panel shows what \<^verbatim>\<open>view\<close> returns for it;
  an event that changes the instance makes the panel call \<^verbatim>\<open>view\<close> again, and one that
  does not leaves the session as it is.
\<close>

theorem view_depends_on_two_parameters:
  "(\<forall>a b p q. slice_index a = slice_index b \<and> view_axis a = view_axis b \<and> volume a = volume b \<longrightarrow>
      slice_data a = slice_data b \<and> fst (view a p) = fst (view b q)) \<and>
   (\<forall>self p. view self p =
      (case slice_data self of
         Inl e \<Rightarrow> (Inl e, p @ [(next_num p, blank_figure (8, 8))])
       | Inr data \<Rightarrow>
           (Inr (PNG \<lparr>figsize = (8, 8), images = [(data, ''gray'')], axis_on = False,
                      tight = True\<rparr> 400 400), p))) \<and>
   (\<exists>self i p. fst (view (self\<lparr>slice_index := i\<rparr>) p) \<noteq> fst (view self p)) \<and>
   (\<exists>self a p. fst (view (self\<lparr>view_axis := a\<rparr>) p) \<noteq> fst (view self p)) \<and>
   (\<forall>self. widgets (panel self) = [''slice_index'', ''view_axis''] \<and>
      watched (panel self) = [''slice_index'', ''view_axis''] \<and> method_count (panel self) = 1) \<and>
   (\<forall>self i. handle_event self (Set_slice_index i) =
      (if fst (slice_index_bounds self) \<le> i \<and> i \<le> snd (slice_index_bounds self)
       then self\<lparr>slice_index := i\<rparr> else self)) \<and>
   (\<forall>self a. handle_event self (Set_view_axis a) =
      (if a = ''x'' \<or> a = ''y'' \<or> a = ''z'' then self\<lparr>view_axis := a\<rparr> else self)) \<and>
   (\<forall>self evs. volume (foldl handle_event self evs) = volume self) \<and>
   (\<forall>self p. mri_vis (show_panel (panel self) self p) = self \<and>
      shown (show_panel (panel self) self p) = Some (fst (view self p))) \<and>
   (\<forall>self p evs q.
      mri_vis (foldl (panel_step (panel self)) (show_panel (panel self) self p) evs) =
        foldl handle_event self evs \<and>
      shown (foldl (panel_step (panel self)) (show_panel (panel self) self p) evs) =
        Some (fst (view (foldl handle_event self evs) q))) \<and>
   (\<forall>self s ev. panel_step (panel self) s ev =
      (if handle_event (mri_vis s) ev \<noteq> mri_vis s
       then redraw (handle_event (mri_vis s) ev) (figures s) else s))"
proof -
  have c1: "\<forall>a b p q. slice_index a = slice_index b \<and> view_axis a = view_axis b \<and> volume a = volume b \<longrightarrow>
      slice_data a = slice_data b \<and> fst (view a p) = fst (view b q)"
    using slice_data_reads view_reads by blast
  have c2: "\<forall>self p. view self p =
      (case slice_data self of
         Inl e \<Rightarrow> (Inl e, p @ [(next_num p, blank_figure (8, 8))])
       | Inr data \<Rightarrow>
           (Inr (PNG \<lparr>figsize = (8, 8), images = [(data, ''gray'')], axis_on = False,
                      tight = True\<rparr> 400 400), p))"
    by (intro allI) (rule view_draws)
  have c3: "\<exists>self i p. fst (view (self\<lparr>slice_index := i\<rparr>) p) \<noteq> fst (view self p)"
    using view_reads_slice_index by blast
  have c4: "\<exists>self a p. fst (view (self\<lparr>view_axis := a\<rparr>) p) \<noteq> fst (view self p)"
    using view_reads_view_axis by blast
  have c5: "\<forall>self. widgets (panel self) = [''slice_index'', ''view_axis''] \<and>
      watched (panel self) = [''slice_index'', ''view_axis''] \<and> method_count (panel self) = 1"
    by (simp add: panel_layout)
  have c6: "\<forall>self i. handle_event self (Set_slice_index i) =
      (if fst (slice_index_bounds self) \<le> i \<and> i \<le> snd (slice_index_bounds self)
       then self\<lparr>slice_index := i\<rparr> else self)"
    by (intro allI) (rule handle_event_sets(1))
  have c7: "\<forall>self a. handle_event self (Set_view_axis a) =
      (if a = ''x'' \<or> a = ''y'' \<or> a = ''z'' then self\<lparr>view_axis := a\<rparr> else self)"
    by (intro allI) (rule handle_event_sets(2))
  have c8: "\<forall>self evs. volume (foldl handle_event self evs) = volume self"
    by (intro allI) (rule foldl_handle_event_frame(2))
  have c9: "\<forall>self p. mri_vis (show_panel (panel self) self p) = self \<and>
      shown (show_panel (panel self) self p) = Some (fst (view self p))"
    by (simp add: show_panel_panel)
  have c10: "\<forall>self p evs q.
      mri_vis (foldl (panel_step (panel self)) (show_panel (panel self) self p) evs) =
        foldl handle_event self evs \<and>
      shown (foldl (panel_step (panel self)) (show_panel (panel self) self p) evs) =
        Some (fst (view (foldl handle_event self evs) q))"
  proof (intro allI)
    fix self p evs q
    have "shown (show_panel (panel self) self p) =
        Some (fst (view (mri_vis (show_panel (panel self) self p)) q))"
      unfolding show_panel_panel using view_reads[of self self p q] by simp
    from panel_run_sync[OF this, of self evs]
    show "mri_vis (foldl (panel_step (panel self)) (show_panel (panel self) self p) evs) =
        foldl handle_event self evs \<and>
      shown (foldl (panel_step (panel self)) (show_panel (panel self) self p) evs) =
        Some (fst (view (foldl handle_event self evs) q))"
      by (simp add: show_panel_panel)
  qed
  have c11: "\<forall>self s ev. panel_step (panel self) s ev =
      (if handle_event (mri_vis s) ev \<noteq> mri_vis s
       then redraw (handle_event (mri_vis s) ev) (figures s) else s)"
    by (intro allI) (rule panel_step_panel)
  show ?thesis
    by (intro conjI c1 c2 c3 c4 c5 c6 c7 c8 c9 c10 c11)
qed

theorem view_depends_on_two_parameters_witness:
  "slice_data example_vis =
     slice_data (example_vis\<lparr>slice_index_bounds := (0, 100), spacing := (1, 1, Single 1)\<rparr>) \<and>
   fst (view example_vis []) =
     fst (view (example_vis\<lparr>slice_index_bounds := (0, 100), spacing := (1, 1, Single 1)\<rparr>)
        [(7, blank_figure (1, 1)), (2, blank_figure (2, 2))]) \<and>
   mri_vis (foldl (panel_step (panel example_vis)) (show_panel (panel example_vis) example_vis [])
       [Set_slice_index 1, Set_view_axis ''w'', Set_slice_index 2, Set_view_axis ''y'']) =
     example_vis\<lparr>slice_index := 1, view_axis := ''y''\<rparr> \<and>
   shown (foldl (panel_step (panel example_vis)) (show_panel (panel example_vis) example_vis [])
       [Set_slice_index 1, Set_view_axis ''w'', Set_slice_index 2, Set_view_axis ''y'']) =
     Some (Inr (PNG \<lparr>figsize = (8, 8),
                     images = [(\<lparr>shape2 = (1, 2), rows2 = [[Finite 1, Finite (1 / 2)]]\<rparr>, ''gray'')],
                     axis_on = False, tight = True\<rparr> 400 400))"
proof -
  let ?b = "example_vis\<lparr>slice_index_bounds := (0, 100), spacing := (1, 1, Single 1)\<rparr>"
  let ?q = "[(7, blank_figure (1, 1)), (2, blank_figure (2, 2))]"
  let ?evs = "[Set_slice_index 1, Set_view_axis ''w'', Set_slice_index 2, Set_view_axis ''y'']"
  let ?s = "foldl (panel_step (panel example_vis)) (show_panel (panel example_vis) example_vis []) ?evs"
  note t = view_depends_on_two_parameters
  note reads = t[THEN conjunct1, rule_format, of example_vis ?b "[]" ?q]
  note sync = t[THEN conjunct2, THEN conjunct2, THEN conjunct2, THEN conjunct2, THEN conjunct2,
      THEN conjunct2, THEN conjunct2, THEN conjunct2, THEN conjunct2, THEN conjunct1,
      rule_format, of example_vis "[]" ?evs "[]"]
  have eq: "slice_index example_vis = slice_index ?b \<and> view_axis example_vis = view_axis ?b \<and>
      volume example_vis = volume ?b"
    by simp
  from reads[OF eq] have r: "slice_data example_vis = slice_data ?b \<and>
      fst (view example_vis []) = fst (view ?b ?q)" .
  have e: "foldl handle_event example_vis ?evs = example_vis\<lparr>slice_index := 1, view_axis := ''y''\<rparr>"
    by code_simp
  have v: "fst (view (example_vis\<lparr>slice_index := 1, view_axis := ''y''\<rparr>) []) =
      Inr (PNG \<lparr>figsize = (8, 8),
                images = [(\<lparr>shape2 = (1, 2), rows2 = [[Finite 1, Finite (1 / 2)]]\<rparr>, ''gray'')],
                axis_on = False, tight = True\<rparr> 400 400)"
    by code_simp
  from sync have "mri_vis ?s = foldl handle_event example_vis ?evs \<and>
      shown ?s = Some (fst (view (foldl handle_event example_vis ?evs) []))" .
  then have m: "mri_vis ?s = example_vis\<lparr>slice_index := 1, view_axis := ''y''\<rparr>"
    and s: "shown ?s = Some (Inr (PNG \<lparr>figsize = (8, 8),
                images = [(\<lparr>shape2 = (1, 2), rows2 = [[Finite 1, Finite (1 / 2)]]\<rparr>, ''gray'')],
                axis_on = False, tight = True\<rparr> 400 400))"
    unfolding e v by simp_all
  from r have r1: "slice_data example_vis = slice_data ?b"
    and r2: "fst (view example_vis []) = fst (view ?b ?q)"
    by simp_all
  show ?thesis
    by (intro conjI r1 r2 m s)
qed

section \<open>The bounds of slice_index\<close>

lemma init_bounds:
  assumes "MRIVisualization_init rnd directory listing = (l, Inr self0)"
  shows "slice_index_bounds self0 = (0, int (snd (snd (shape3 (volume self0)))) - 1)"
    and "slice_index self0 = 0" and "view_axis self0 = ''z''"
    and "\<exists>sp. load_dicom_series rnd directory listing = (l, Inr (volume self0, sp))"
  using assms
  by (auto simp: MRIVisualization_init_def split: prod.splits sum.splits)

lemma slice_data_x:
  assumes "shape3 (volume self) = (r, c, n)" "0 \<le> i"
  shows "slice_data (self\<lparr>slice_index := i, view_axis := ''x''\<rparr>) =
     (if i < int r then Inr \<lparr>shape2 = (c, n), rows2 = cells (volume self) ! nat i\<rparr> else Inl IndexError)"
  using assms by (simp add: slice_data_def take_x_def axis_index_nonneg)

lemma slice_data_y:
  assumes "shape3 (volume self) = (r, c, n)" "0 \<le> i"
  shows "slice_data (self\<lparr>slice_index := i, view_axis := ''y''\<rparr>) =
     (if i < int c then Inr \<lparr>shape2 = (r, n), rows2 = map (\<lambda>plane. plane ! nat i) (cells (volume self))\<rparr>
      else Inl IndexError)"
  using assms by (simp add: slice_data_def take_y_def axis_index_nonneg)

lemma slice_data_z:
  assumes "shape3 (volume self) = (r, c, n)" "0 \<le> i"
  shows "slice_data (self\<lparr>slice_index := i, view_axis := ''z''\<rparr>) =
     (if i < int n then Inr \<lparr>shape2 = (r, c), rows2 = map (map (\<lambda>cell. cell ! nat i)) (cells (volume self))\<rparr>
      else Inl IndexError)"
  using assms by (simp add: slice_data_def take_z_def axis_index_nonneg)

lemma all_below_iff: "(\<forall>i. 0 \<le> i \<and> i \<le> int n - 1 \<longrightarrow> i < int r) \<longleftrightarrow> n \<le> r"
proof
  assume h: "\<forall>i. 0 \<le> i \<and> i \<le> int n - 1 \<longrightarrow> i < int r"
  show "n \<le> r"
  proof (cases n)
    case 0
    then show ?thesis by simp
  next
    case (Suc m)
    with h[rule_format, of "int n - 1"] show ?thesis by simp
  qed
next
  assume "n \<le> r"
  then show "\<forall>i. 0 \<le> i \<and> i \<le> int n - 1 \<longrightarrow> i < int r" by auto
qed

text \<open>
  C3. The constructor sets the bounds of \<^verbatim>\<open>slice_index\<close> to \<open>(0, n - 1)\<close>, with \<open>n\<close>
  the length of the third axis, and no event of the panel changes them or the volume.
  So a \<^verbatim>\<open>slice_index\<close> is accepted exactly when it lies in \<open>0 .. n - 1\<close>, whatever the
  axis. Every accepted index is inside the volume on axis \<^verbatim>\<open>z\<close>; on axis \<^verbatim>\<open>x\<close> this
  holds exactly when \<open>n \<le> r\<close> (the number of rows) and on axis \<^verbatim>\<open>y\<close> exactly when
  \<open>n \<le> c\<close> (the number of columns). Otherwise the accepted index \<open>n - 1\<close> raises
  IndexError.
\<close>

theorem slice_index_bounds_follow_z_axis_only:
  assumes "MRIVisualization_init rnd directory listing = (l, Inr self0)"
    and "shape3 (volume self0) = (r, c, n)"
    and "self = foldl handle_event self0 evs"
  shows "slice_index_bounds self0 = (0, int n - 1) \<and>
    slice_index_bounds self = (0, int n - 1) \<and> volume self = volume self0 \<and>
    (\<forall>i. (\<exists>self'. set_slice_index i self = Inr self') \<longleftrightarrow> 0 \<le> i \<and> i \<le> int n - 1) \<and>
    ((\<forall>i. 0 \<le> i \<and> i \<le> int n - 1 \<longrightarrow>
        (\<exists>s. slice_data (self\<lparr>slice_index := i, view_axis := ''x''\<rparr>) = Inr s)) \<longleftrightarrow> n \<le> r) \<and>
    ((\<forall>i. 0 \<le> i \<and> i \<le> int n - 1 \<longrightarrow>
        (\<exists>s. slice_data (self\<lparr>slice_index := i, view_axis := ''y''\<rparr>) = Inr s)) \<longleftrightarrow> n \<le> c) \<and>
    (\<forall>i. 0 \<le> i \<and> i \<le> int n - 1 \<longrightarrow>
        (\<exists>s. slice_data (self\<lparr>slice_index := i, view_axis := ''z''\<rparr>) = Inr s)) \<and>
    (r < n \<longrightarrow> slice_data (self\<lparr>slice_index := int n - 1, view_axis := ''x''\<rparr>) = Inl IndexError) \<and>
    (c < n \<longrightarrow> slice_data (self\<lparr>slice_index := int n - 1, view_axis := ''y''\<rparr>) = Inl IndexError)"
proof -
  have b0: "slice_index_bounds self0 = (0, int n - 1)"
    using init_bounds(1)[OF assms(1)] assms(2) by simp
  have b: "slice_index_bounds self = (0, int n - 1)"
    using b0 assms(3) by (simp add: foldl_handle_event_frame)
  have v: "volume self = volume self0"
    using assms(3) by (simp add: foldl_handle_event_frame)
  have sh: "shape3 (volume self) = (r, c, n)" using v assms(2) by simp
  have perm: "\<forall>i. (\<exists>self'. set_slice_index i self = Inr self') \<longleftrightarrow> 0 \<le> i \<and> i \<le> int n - 1"
    using b by (simp add: set_slice_index_def)
  have x: "(\<forall>i. 0 \<le> i \<and> i \<le> int n - 1 \<longrightarrow>
        (\<exists>s. slice_data (self\<lparr>slice_index := i, view_axis := ''x''\<rparr>) = Inr s)) \<longleftrightarrow> n \<le> r"
  proof -
    have "(\<exists>s. slice_data (self\<lparr>slice_index := i, view_axis := ''x''\<rparr>) = Inr s) \<longleftrightarrow> i < int r"
      if "0 \<le> i" for i
      using slice_data_x[OF sh that] by simp
    then have "(\<forall>i. 0 \<le> i \<and> i \<le> int n - 1 \<longrightarrow>
        (\<exists>s. slice_data (self\<lparr>slice_index := i, view_axis := ''x''\<rparr>) = Inr s)) \<longleftrightarrow>
        (\<forall>i. 0 \<le> i \<and> i \<le> int n - 1 \<longrightarrow> i < int r)"
      by blast
    then show ?thesis by (simp only: all_below_iff)
  qed
  have y: "(\<forall>i. 0 \<le> i \<and> i \<le> int n - 1 \<longrightarrow>
        (\<exists>s. slice_data (self\<lparr>slice_index := i, view_axis := ''y''\<rparr>) = Inr s)) \<longleftrightarrow> n \<le> c"
  proof -
    have "(\<exists>s. slice_data (self\<lparr>slice_index := i, view_axis := ''y''\<rparr>) = Inr s) \<longleftrightarrow> i < int c"
      if "0 \<le> i" for i
      using slice_data_y[OF sh that] by simp
    then have "(\<forall>i. 0 \<le> i \<and> i \<le> int n - 1 \<longrightarrow>
        (\<exists>s. slice_data (self\<lparr>slice_index := i, view_axis := ''y''\<rparr>) = Inr s)) \<longleftrightarrow>
        (\<forall>i. 0 \<le> i \<and> i \<le> int n - 1 \<longrightarrow> i < int c)"
      by blast
    then show ?thesis by (simp only: all_below_iff)
  qed
  have z: "\<forall>i. 0 \<le> i \<and> i \<le> int n - 1 \<longrightarrow>
        (\<exists>s. slice_data (self\<lparr>slice_index := i, view_axis := ''z''\<rparr>) = Inr s)"
    by (simp add: slice_data_z[OF sh])
  have xe: "r < n \<longrightarrow> slice_data (self\<lparr>slice_index := int n - 1, view_axis := ''x''\<rparr>) = Inl IndexError"
    by (auto simp: slice_data_x[OF sh])
  have ye: "c < n \<longrightarrow> slice_data (self\<lparr>slice_index := int n - 1, view_axis := ''y''\<rparr>) = Inl IndexError"
    by (auto simp: slice_data_y[OF sh])
  show ?thesis using b0 b v perm x y z xe ye by blast
qed

lemma example_init:
  "MRIVisualization_init (\<lambda>x. x) ''scan'' example_series = ([Info_loading ''scan''], Inr example_vis)"
  by code_simp

text \<open>
  C2. A series of two slices of one row and two columns loads into a volume of shape
  \<open>(1, 2, 2)\<close>. The slider accepts \<^verbatim>\<open>slice_index = 1\<close>, the selector accepts
  \<^verbatim>\<open>view_axis = 'x'\<close>, and \<^verbatim>\<open>view\<close> then raises IndexError at \<^verbatim>\<open>volume[1, :, :]\<close>
  instead of drawing a slice.
\<close>

theorem view_raises_on_permitted_index:
  "MRIVisualization_init (\<lambda>x. x) ''scan'' example_series = ([Info_loading ''scan''], Inr example_vis) \<and>
   slice_index_bounds example_vis = (0, 1) \<and>
   set_slice_index 1 example_vis = Inr (example_vis\<lparr>slice_index := 1\<rparr>) \<and>
   set_view_axis ''x'' (example_vis\<lparr>slice_index := 1\<rparr>) =
     Inr (example_vis\<lparr>slice_index := 1, view_axis := ''x''\<rparr>) \<and>
   view (example_vis\<lparr>slice_index := 1, view_axis := ''x''\<rparr>) [] =
     (Inl IndexError, [(1, blank_figure (8, 8))]) \<and>
   (\<forall>plt. fst (view (example_vis\<lparr>slice_index := 1, view_axis := ''x''\<rparr>) plt) = Inl IndexError)"
proof -
  have s: "slice_data (example_vis\<lparr>slice_index := 1, view_axis := ''x''\<rparr>) = Inl IndexError"
    by code_simp
  have a: "\<forall>plt. fst (view (example_vis\<lparr>slice_index := 1, view_axis := ''x''\<rparr>) plt) = Inl IndexError"
    unfolding view_draws s by simp
  have b: "MRIVisualization_init (\<lambda>x. x) ''scan'' example_series = ([Info_loading ''scan''], Inr example_vis) \<and>
   slice_index_bounds example_vis = (0, 1) \<and>
   set_slice_index 1 example_vis = Inr (example_vis\<lparr>slice_index := 1\<rparr>) \<and>
   set_view_axis ''x'' (example_vis\<lparr>slice_index := 1\<rparr>) =
     Inr (example_vis\<lparr>slice_index := 1, view_axis := ''x''\<rparr>) \<and>
   view (example_vis\<lparr>slice_index := 1, view_axis := ''x''\<rparr>) [] =
     (Inl IndexError, [(1, blank_figure (8, 8))])"
    by code_simp
  from a b show ?thesis by simp
qed

theorem slice_index_bounds_follow_z_axis_only_witness:
  "MRIVisualization_init (\<lambda>x. x) ''scan'' example_series = ([Info_loading ''scan''], Inr example_vis) \<and>
   shape3 (volume example_vis) = (1, 2, 2) \<and>
   slice_index_bounds (foldl handle_event example_vis [Set_view_axis ''x'', Set_slice_index 1]) = (0, 1) \<and>
   slice_data ((foldl handle_event example_vis [Set_view_axis ''x'', Set_slice_index 1])
      \<lparr>slice_index := 1, view_axis := ''x''\<rparr>) = Inl IndexError \<and>
   (\<exists>s. slice_data ((foldl handle_event example_vis [Set_view_axis ''x'', Set_slice_index 1])
      \<lparr>slice_index := 1, view_axis := ''y''\<rparr>) = Inr s) \<and>
   foldl handle_event example_vis [Set_view_axis ''x'', Set_slice_index 1] =
     example_vis\<lparr>slice_index := 1, view_axis := ''x''\<rparr>"
proof -
  let ?self = "foldl handle_event example_vis [Set_view_axis ''x'', Set_slice_index 1]"
  have sh: "shape3 (volume example_vis) = (1, 2, 2)"
    by (simp add: example_vis_def)
  have run: "?self = example_vis\<lparr>slice_index := 1, view_axis := ''x''\<rparr>"
    by code_simp
  note t = slice_index_bounds_follow_z_axis_only[OF example_init sh refl,
      of "[Set_view_axis ''x'', Set_slice_index 1]"]
  from t have b: "slice_index_bounds ?self = (0, 1)" by simp
  from t have x: "slice_data (?self\<lparr>slice_index := 1, view_axis := ''x''\<rparr>) = Inl IndexError"
    by simp
  from t have "\<forall>i. 0 \<le> i \<and> i \<le> int 2 - 1 \<longrightarrow>
      (\<exists>s. slice_data (?self\<lparr>slice_index := i, view_axis := ''y''\<rparr>) = Inr s)"
    by simp
  then have y: "\<exists>s. slice_data (?self\<lparr>slice_index := 1, view_axis := ''y''\<rparr>) = Inr s"
    by simp
  show ?thesis
    by (intro conjI example_init sh b x y run)
qed

end
